theory Spec2Isabelle
  imports Main
begin

section \<open>Text Expansion Manager: snapshot paging, chunked cache, duplicate-safe writes\<close>

text \<open>
  A shallow embedding of the Apps Script backend (\<^verbatim>\<open>src/Code.gs\<close>,
  \<^verbatim>\<open>src/uiHandlers.gs\<close>, \<^verbatim>\<open>src/favorites.gs\<close>).

  Conventions of the model.
  \<^item> A JavaScript string is a \<^typ>\<open>string\<close>: a list of code units.
  \<^item> A private function \<^verbatim>\<open>name_\<close> of the source is the constant \<^verbatim>\<open>name\<close>
    here (an identifier cannot end with an underscore).
  \<^item> A raised exception is the left injection of a sum; a function that can fail to
    return yields an \<^typ>\<open>'a option\<close>, \<^term>\<open>None\<close> standing for divergence.
  \<^item> The spreadsheet, the script cache, the script properties, the two locks, the
    clock, the UUID generator and the session user are fields of one explicit
    \<open>world\<close> record that every stateful function takes and returns.
\<close>

subsection \<open>Configuration (\<^verbatim>\<open>CFG\<close>, \<^verbatim>\<open>HEADERS_*\<close>)\<close>

definition CFG_SHEET_SHORTCUTS :: string where "CFG_SHEET_SHORTCUTS = ''Shortcuts''"
definition CFG_SHEET_FAVORITES :: string where "CFG_SHEET_FAVORITES = ''Favorites''"
definition CFG_CACHE_KEY_PREFIX :: string where "CFG_CACHE_KEY_PREFIX = ''TEM_SHORTCUTS''"
definition CFG_MAX_KEY_LEN :: nat where "CFG_MAX_KEY_LEN = 80"
definition CFG_MAX_FIELD_LEN :: nat where "CFG_MAX_FIELD_LEN = 50000"
definition CFG_MAX_TAGS_LEN :: nat where "CFG_MAX_TAGS_LEN = 512"
definition CFG_MAX_LANGUAGE_LEN :: nat where "CFG_MAX_LANGUAGE_LEN = 64"
definition CFG_MAX_APP_LEN :: nat where "CFG_MAX_APP_LEN = 128"
definition CFG_MAX_DESC_LEN :: nat where "CFG_MAX_DESC_LEN = 2000"
definition CFG_INITIAL_PAGE_SIZE :: int where "CFG_INITIAL_PAGE_SIZE = 200"
definition CFG_SNAPSHOT_TTL_SECONDS :: nat where "CFG_SNAPSHOT_TTL_SECONDS = 60 * 5"
definition CHUNK_SIZE :: nat where "CHUNK_SIZE = 90000"

definition HEADERS_SHORTCUTS :: "string list" where
  "HEADERS_SHORTCUTS =
     [''ID'', ''Snippet Name'', ''Content'', ''Application'', ''Description'',
      ''Language'', ''Tags'', ''UpdatedAt'']"

definition HEADERS_FAVORITES :: "string list" where
  "HEADERS_FAVORITES = [''UserEmail'', ''Snippet Name'', ''CreatedAt'']"

subsection \<open>JavaScript primitives\<close>

text \<open>
  \<^verbatim>\<open>String.prototype.trim\<close> removes white space at both ends. The code units
  below 256 that count as white space are TAB, LF, VT, FF, CR, SPACE and NBSP.
\<close>

definition is_ws :: "char \<Rightarrow> bool" where
  "is_ws c = (c \<in> set [CHR 0x09, CHR 0x0A, CHR 0x0B, CHR 0x0C, CHR 0x0D, CHR 0x20, CHR 0xA0])"

definition trim :: "string \<Rightarrow> string" where
  "trim s = rev (dropWhile is_ws (rev (dropWhile is_ws s)))"

text \<open>\<^verbatim>\<open>toLowerCase\<close> on the ASCII letters.\<close>

definition upper_letters :: string where
  "upper_letters = ''ABCDEFGHIJKLMNOPQRSTUVWXYZ''"

definition lower_letters :: string where
  "lower_letters = ''abcdefghijklmnopqrstuvwxyz''"

definition lower_char :: "char \<Rightarrow> char" where
  "lower_char c =
     (case map_of (zip upper_letters lower_letters) c of None \<Rightarrow> c | Some d \<Rightarrow> d)"

definition toLowerCase :: "string \<Rightarrow> string" where
  "toLowerCase s = map lower_char s"

text \<open>
  \<^verbatim>\<open>str.substring(a, b)\<close> on natural numbers: both ends are clamped to the
  length and swapped when out of order.
\<close>

definition substring :: "string \<Rightarrow> nat \<Rightarrow> nat \<Rightarrow> string" where
  "substring s a b =
     (let a' = min a (length s); b' = min b (length s)
      in take (max a' b' - min a' b') (drop (min a' b') s))"

text \<open>
  \<^verbatim>\<open>arr.slice(start, end)\<close> on integers: a negative index counts from the end,
  both are clamped to the array.
\<close>

definition js_slice :: "'a list \<Rightarrow> int \<Rightarrow> int \<Rightarrow> 'a list" where
  "js_slice xs s e =
     (let n = int (length xs);
          from = (if s < 0 then max (n + s) 0 else min s n);
          to = (if e < 0 then max (n + e) 0 else min e n)
      in take (nat (to - from)) (drop (nat from) xs))"

text \<open>The decimal numeral \<^verbatim>\<open>${i}\<close> of a template string.\<close>

definition digit_char :: "nat \<Rightarrow> char" where
  "digit_char n = (''0123456789'' ! n)"

fun string_of_nat :: "nat \<Rightarrow> string" where
  "string_of_nat n =
     (if n < 10 then [digit_char n]
      else string_of_nat (n div 10) @ [digit_char (n mod 10)])"

text \<open>
  The values a caller can pass as \<^verbatim>\<open>offset\<close> and \<^verbatim>\<open>limit\<close>: a missing
  argument, \<^verbatim>\<open>null\<close>, a boolean, an integral number or \<^verbatim>\<open>NaN\<close>.
  \<^verbatim>\<open>Number(v)\<close> is \<open>None\<close> for \<^verbatim>\<open>NaN\<close>. Fractions, infinities and strings
  are outside the model.
\<close>

datatype jsval = JUndefined | JNull | JBool bool | JNum int | JNaN

fun Number :: "jsval \<Rightarrow> int option" where
  "Number JUndefined = None"
| "Number JNull = Some 0"
| "Number (JBool b) = Some (if b then 1 else 0)"
| "Number (JNum n) = Some n"
| "Number JNaN = None"

text \<open>\<^verbatim>\<open>Number(v) || d\<close>: the default replaces \<^verbatim>\<open>NaN\<close> and \<^verbatim>\<open>0\<close>.\<close>

definition number_or :: "jsval \<Rightarrow> int \<Rightarrow> int" where
  "number_or v d = (case Number v of None \<Rightarrow> d | Some n \<Rightarrow> if n = 0 then d else n)"

subsection \<open>Codec and chunker (\<^verbatim>\<open>chunkString_\<close>)\<close>

text \<open>
  The loop \<^verbatim>\<open>for (let i = 0; i < str.length; i += chunkSize)\<close> does not end for
  \<^verbatim>\<open>chunkSize = 0\<close> on a non-empty string, so it is a partial function.
\<close>

partial_function (option) chunk_loop ::
  "string \<Rightarrow> nat \<Rightarrow> nat \<Rightarrow> string list \<Rightarrow> string list option" where
  "chunk_loop str chunkSize i out =
     (if i < length str
      then chunk_loop str chunkSize (i + chunkSize) (out @ [substring str i (i + chunkSize)])
      else Some out)"

declare chunk_loop.simps [code]

definition chunkString :: "string \<Rightarrow> nat \<Rightarrow> string list option" where
  "chunkString str chunkSize = chunk_loop str chunkSize 0 []"


subsection \<open>The spreadsheet\<close>

text \<open>
  A sheet is the list of its rows up to the last row with content, so
  \<^verbatim>\<open>getLastRow()\<close> is the length of the list and row 1 (the header) is its head.
  A row is the list of its cells; a cell beyond the end of a row is empty. Cells hold
  text.
\<close>

type_synonym row = "string list"
type_synonym sheet = "row list"

text \<open>\<^verbatim>\<open>String(row[c] || '')\<close>, also for an undefined column index.\<close>

definition cell :: "row \<Rightarrow> nat \<Rightarrow> string" where
  "cell r c = (if c < length r then r ! c else [])"

definition cell_opt :: "row \<Rightarrow> nat option \<Rightarrow> string" where
  "cell_opt r c = (case c of None \<Rightarrow> [] | Some i \<Rightarrow> cell r i)"

definition getLastColumn :: "sheet \<Rightarrow> nat" where
  "getLastColumn sh = fold (\<lambda>r m. max (length r) m) sh 0"

definition pad_row :: "nat \<Rightarrow> row \<Rightarrow> row" where
  "pad_row n r = r @ replicate (n - length r) []"

definition first_row :: "sheet \<Rightarrow> row" where
  "first_row sh = (case sh of [] \<Rightarrow> [] | r # _ \<Rightarrow> r)"

text \<open>\<^verbatim>\<open>sheet.deleteRow(n)\<close>, rows counted from 1; \<^verbatim>\<open>sheet.appendRow(row)\<close>.\<close>

definition deleteRow :: "nat \<Rightarrow> sheet \<Rightarrow> sheet" where
  "deleteRow n sh = take (n - 1) sh @ drop n sh"

definition appendRow :: "row \<Rightarrow> sheet \<Rightarrow> sheet" where
  "appendRow r sh = sh @ [r]"

text \<open>\<^verbatim>\<open>arr[i] = v\<close>: an assignment past the end extends the array.\<close>

definition js_set :: "row \<Rightarrow> nat \<Rightarrow> string \<Rightarrow> row" where
  "js_set r i v = (if i < length r then r[i := v] else r @ replicate (i - length r) [] @ [v])"

text \<open>\<^verbatim>\<open>rows.sort((a, b) => b - a)\<close>: descending numeric order.\<close>

definition sort_desc :: "nat list \<Rightarrow> nat list" where
  "sort_desc xs = rev (sort xs)"

text \<open>The loop \<^verbatim>\<open>for (...) sheet.deleteRow(rows[i])\<close>.\<close>

definition deleteRows :: "nat list \<Rightarrow> sheet \<Rightarrow> sheet" where
  "deleteRows ns sh = fold deleteRow ns sh"

fun indexHeader_from :: "nat \<Rightarrow> row \<Rightarrow> (string \<rightharpoonup> nat) \<Rightarrow> (string \<rightharpoonup> nat)" where
  "indexHeader_from i [] idx = idx"
| "indexHeader_from i (c # cs) idx =
     (let h = trim c
      in indexHeader_from (Suc i) cs
           (if h \<noteq> [] then idx(h \<mapsto> i, toLowerCase h \<mapsto> i) else idx))"

definition indexHeader :: "row \<Rightarrow> (string \<rightharpoonup> nat)" where
  "indexHeader headerRow = indexHeader_from 0 headerRow Map.empty"

definition getColumnValues :: "sheet \<Rightarrow> nat \<Rightarrow> string list" where
  "getColumnValues sh colIndexZeroBased =
     (if length sh \<le> 1 then [] else map (\<lambda>r. trim (cell r colIndexZeroBased)) (tl sh))"

text \<open>
  The scans of the source (\<^verbatim>\<open>for (i ...) if (...) rows.push(i + c)\<close>): the sheet
  row numbers of the entries that satisfy \<open>P\<close>, in ascending order, where the first
  entry of the list sits in row \<open>n\<close>.
\<close>

fun rows_where :: "nat \<Rightarrow> ('a \<Rightarrow> bool) \<Rightarrow> 'a list \<Rightarrow> nat list" where
  "rows_where n P [] = []"
| "rows_where n P (x # xs) = (if P x then [n] else []) @ rows_where (Suc n) P xs"

text \<open>
  \<^verbatim>\<open>findAllRowsByKey_\<close>: entry \<open>i\<close> of the key column is sheet row \<open>i + 2\<close>
  (one for the header, one for counting from 1).
\<close>

definition findAllRowsByKey :: "string list \<Rightarrow> string \<Rightarrow> nat list" where
  "findAllRowsByKey keysArray key = rows_where 2 (\<lambda>k. trim k = trim key) keysArray"

text \<open>
  \<^verbatim>\<open>ensureHeaderRow_\<close>: the header cells are rewritten when the sheet is empty or
  one of them, trimmed, differs from the expected header.
\<close>

definition ensureHeaderRow :: "sheet \<Rightarrow> string list \<Rightarrow> sheet" where
  "ensureHeaderRow sh headers =
     (let existing = map trim (pad_row (max (getLastColumn sh) (length headers)) (first_row sh));
          needs = list_ex (\<lambda>i. existing ! i \<noteq> headers ! i) [0..<length headers]
      in if length sh = 0 \<or> needs
         then (headers @ drop (length headers) (first_row sh)) # tl sh
         else sh)"

subsection \<open>The world\<close>

datatype error =
    CompressionFailed
  | DecompressionFailed
  | ServerBusy
  | LockTimeout
  | MissingSheet string
  | MissingHeaders "string list"
  | TypeError

record world =
  shortcuts_sheet :: "sheet option"
  favorites_sheet :: "sheet option"
  cache :: "string \<rightharpoonup> string"
  cache_put_ok :: bool
  cache_ver :: "nat option"
  script_lock_free :: bool
  document_lock_free :: bool
  user_email :: string
  now_iso :: string
  next_uuid :: string

text \<open>
  \<open>cache_put_ok\<close> tells whether \<^verbatim>\<open>cache.putAll\<close> succeeds; the two lock fields
  tell whether the script lock and the document lock can be acquired within the timeout
  of the caller. \<open>cache_ver\<close> is the script property \<^verbatim>\<open>TEM_SHORTCUTS_VER\<close>.
  The cache is a map at the moment of the call: an expired or evicted entry is absent.
\<close>

definition getSheet :: "world \<Rightarrow> string \<Rightarrow> error + sheet" where
  "getSheet w name =
     (case (if name = CFG_SHEET_SHORTCUTS then shortcuts_sheet w
            else if name = CFG_SHEET_FAVORITES then favorites_sheet w else None) of
        None \<Rightarrow> Inl (MissingSheet name)
      | Some sh \<Rightarrow> Inr sh)"

definition ensureSheets :: "world \<Rightarrow> world" where
  "ensureSheets w =
     w\<lparr>shortcuts_sheet :=
         Some (ensureHeaderRow (case shortcuts_sheet w of None \<Rightarrow> [] | Some sh \<Rightarrow> sh)
                 HEADERS_SHORTCUTS),
       favorites_sheet :=
         Some (ensureHeaderRow (case favorites_sheet w of None \<Rightarrow> [] | Some sh \<Rightarrow> sh)
                 HEADERS_FAVORITES)\<rparr>"

definition bumpCacheVersion :: "world \<Rightarrow> world" where
  "bumpCacheVersion w =
     w\<lparr>cache_ver := Some ((case cache_ver w of None \<Rightarrow> 1 | Some v \<Rightarrow> v) + 1)\<rparr>"

definition invalidateShortcutsCache :: "world \<Rightarrow> world" where
  "invalidateShortcutsCache w =
     bumpCacheVersion (w\<lparr>cache := (cache w)(CFG_CACHE_KEY_PREFIX @ ''_META'' := None)\<rparr>)"


subsection \<open>Chunked cache (\<^verbatim>\<open>readCacheByKey_\<close>, \<^verbatim>\<open>writeCacheByKey_\<close>)\<close>

record shortcut =
  sc_id :: string
  sc_key :: string
  sc_expansion :: string
  sc_application :: string
  sc_description :: string
  sc_language :: string
  sc_tags :: string
  sc_updatedAt :: string

record cache_meta =
  chunkCount :: nat
  encoding :: string
  updatedAt :: string

text \<open>
  The services of the platform that the cache code calls: \<^verbatim>\<open>Utilities.gzip\<close> with
  \<^verbatim>\<open>base64Encode\<close> and their inverses (\<open>None\<close> when the call throws),
  \<^verbatim>\<open>JSON.stringify\<close> on the row list and on the meta record, and
  \<^verbatim>\<open>JSON.parse\<close> (\<open>None\<close> when it throws or the value is not of the
  expected shape). They are parameters: nothing is assumed about them.
\<close>

record platform =
  gzip_b64 :: "string \<Rightarrow> string option"
  ungzip_b64 :: "string \<Rightarrow> string option"
  json_of_rows :: "shortcut list \<Rightarrow> string"
  rows_of_json :: "string \<Rightarrow> shortcut list option"
  json_of_meta :: "cache_meta \<Rightarrow> string"
  meta_of_json :: "string \<Rightarrow> cache_meta option"

definition encodeGzB64 :: "platform \<Rightarrow> string \<Rightarrow> error + string" where
  "encodeGzB64 plat s = (case gzip_b64 plat s of None \<Rightarrow> Inl CompressionFailed | Some b \<Rightarrow> Inr b)"

definition decodeGzB64 :: "platform \<Rightarrow> string \<Rightarrow> error + string" where
  "decodeGzB64 plat b64 =
     (case ungzip_b64 plat b64 of None \<Rightarrow> Inl DecompressionFailed | Some s \<Rightarrow> Inr s)"

definition meta_key :: "string \<Rightarrow> string" where
  "meta_key prefix = prefix @ ''_META''"

definition chunk_key :: "string \<Rightarrow> nat \<Rightarrow> string" where
  "chunk_key prefix i = prefix @ ''_'' @ string_of_nat i"

function readChunks_loop ::
  "(string \<rightharpoonup> string) \<Rightarrow> string \<Rightarrow> nat \<Rightarrow> nat \<Rightarrow> string \<Rightarrow> string option" where
  "readChunks_loop chunks prefix count i combined =
     (if i \<le> count
      then (case chunks (chunk_key prefix i) of
              None \<Rightarrow> None
            | Some part \<Rightarrow>
                if part = [] then None
                else readChunks_loop chunks prefix count (Suc i) (combined @ part))
      else Some combined)"
  by pat_completeness auto
termination
  by (relation "measure (\<lambda>(chunks, prefix, count, i, combined). Suc count - i)") auto

text \<open>
  \<^verbatim>\<open>cache.getAll(keys)\<close> returns the entries of the requested keys that are
  present; \<open>None\<close> is the \<^verbatim>\<open>null\<close> returned when a part is missing or empty.
\<close>

definition readChunksByKey :: "(string \<rightharpoonup> string) \<Rightarrow> string \<Rightarrow> nat \<Rightarrow> string option" where
  "readChunksByKey c prefix count =
     (let keys = map (chunk_key prefix) [1..<Suc count];
          chunks = c |` set keys
      in readChunks_loop chunks prefix count 1 [])"

definition readCacheByKey :: "platform \<Rightarrow> world \<Rightarrow> string \<Rightarrow> error + shortcut list option" where
  "readCacheByKey plat w prefix =
     (case cache w (meta_key prefix) of
        None \<Rightarrow> Inr None
      | Some metaRaw \<Rightarrow>
          if metaRaw = [] then Inr None
          else (case meta_of_json plat metaRaw of
                  None \<Rightarrow> Inr None
                | Some meta \<Rightarrow>
                    if chunkCount meta \<noteq> 0 \<and> encoding meta = ''gz-b64''
                    then (case readChunksByKey (cache w) prefix (chunkCount meta) of
                            None \<Rightarrow> Inr None
                          | Some combined \<Rightarrow>
                              if combined = [] then Inr None
                              else (case decodeGzB64 plat combined of
                                      Inl e \<Rightarrow> Inl e
                                    | Inr json \<Rightarrow> Inr (rows_of_json plat json)))
                    else Inr None))"

fun payload_chunks ::
  "string \<Rightarrow> nat \<Rightarrow> string list \<Rightarrow> (string \<rightharpoonup> string) \<Rightarrow> (string \<rightharpoonup> string)" where
  "payload_chunks prefix i [] payload = payload"
| "payload_chunks prefix i (c # cs) payload =
     payload_chunks prefix (Suc i) cs (payload(chunk_key prefix (i + 1) \<mapsto> c))"

text \<open>
  \<^verbatim>\<open>writeCacheByKey_\<close>: compression happens before the \<^verbatim>\<open>try\<close>, so its failure
  is raised; a failure of \<^verbatim>\<open>putAll\<close> is caught and turned into \<^verbatim>\<open>false\<close>.
  The time to live is not part of the model.
\<close>

definition writeCacheByKey ::
  "platform \<Rightarrow> world \<Rightarrow> string \<Rightarrow> shortcut list \<Rightarrow> nat \<Rightarrow> (error + bool \<times> world) option" where
  "writeCacheByKey plat w prefix list ttl =
     (case encodeGzB64 plat (json_of_rows plat list) of
        Inl e \<Rightarrow> Some (Inl e)
      | Inr encoded \<Rightarrow>
          (case chunkString encoded CHUNK_SIZE of
             None \<Rightarrow> None
           | Some chunks \<Rightarrow>
               let meta = \<lparr>chunkCount = length chunks, encoding = ''gz-b64'',
                            updatedAt = now_iso w\<rparr>;
                   payload = payload_chunks prefix 0 chunks
                               (Map.empty(meta_key prefix \<mapsto> json_of_meta plat meta))
               in if cache_put_ok w
                  then Some (Inr (True, w\<lparr>cache := cache w ++ payload\<rparr>))
                  else Some (Inr (False, w))))"

definition readSnapshotCache :: "platform \<Rightarrow> world \<Rightarrow> string \<Rightarrow> error + shortcut list option" where
  "readSnapshotCache plat w token = readCacheByKey plat w (''SNAP_'' @ token)"

text \<open>\<^verbatim>\<open>writeSnapshotCache_\<close> drops the boolean of \<^verbatim>\<open>writeCacheByKey_\<close>.\<close>

definition writeSnapshotCache ::
  "platform \<Rightarrow> world \<Rightarrow> string \<Rightarrow> shortcut list \<Rightarrow> (error + world) option" where
  "writeSnapshotCache plat w token list =
     (case writeCacheByKey plat w (''SNAP_'' @ token) list CFG_SNAPSHOT_TTL_SECONDS of
        None \<Rightarrow> None
      | Some (Inl e) \<Rightarrow> Some (Inl e)
      | Some (Inr (written, w')) \<Rightarrow> Some (Inr w'))"

subsection \<open>Snapshot and paging (\<^verbatim>\<open>beginShortcutsSnapshot\<close>, \<^verbatim>\<open>fetchSnapshotPage_\<close>)\<close>

text \<open>\<^verbatim>\<open>getDataRange().getValues()\<close>: the rows, padded to a rectangle.\<close>

definition getDataValues :: "sheet \<Rightarrow> row list" where
  "getDataValues sh = map (pad_row (getLastColumn sh)) sh"

record snapshot_cols =
  scol_id :: "nat option"
  scol_key :: "nat option"
  scol_expansion :: "nat option"
  scol_application :: "nat option"
  scol_description :: "nat option"
  scol_language :: "nat option"
  scol_tags :: "nat option"
  scol_updatedAt :: "nat option"

fun shortcuts_from :: "nat \<Rightarrow> snapshot_cols \<Rightarrow> row list \<Rightarrow> shortcut list" where
  "shortcuts_from i col [] = []"
| "shortcuts_from i col (r # rs) =
     (let key = trim (cell_opt r (scol_key col))
      in if key = [] then shortcuts_from (Suc i) col rs
         else \<lparr>sc_id = (if scol_id col \<noteq> None \<and> cell_opt r (scol_id col) \<noteq> []
                         then cell_opt r (scol_id col)
                         else ''ROW-'' @ string_of_nat (i + 1)),
               sc_key = key,
               sc_expansion = cell_opt r (scol_expansion col),
               sc_application = cell_opt r (scol_application col),
               sc_description = cell_opt r (scol_description col),
               sc_language = cell_opt r (scol_language col),
               sc_tags = cell_opt r (scol_tags col),
               sc_updatedAt = cell_opt r (scol_updatedAt col)\<rparr>
              # shortcuts_from (Suc i) col rs)"

definition getShortcutsFromSheet :: "world \<Rightarrow> error + shortcut list" where
  "getShortcutsFromSheet w =
     (case getSheet w CFG_SHEET_SHORTCUTS of
        Inl e \<Rightarrow> Inl e
      | Inr sh \<Rightarrow>
          let data = getDataValues sh
          in if length data \<le> 1 then Inr []
             else let idx = indexHeader (data ! 0);
                      col = \<lparr>scol_id = idx ''ID'', scol_key = idx ''Snippet Name'',
                             scol_expansion = idx ''Content'',
                             scol_application = idx ''Application'',
                             scol_description = idx ''Description'',
                             scol_language = idx ''Language'', scol_tags = idx ''Tags'',
                             scol_updatedAt = idx ''UpdatedAt''\<rparr>
                  in Inr (shortcuts_from 1 col (tl data)))"

record snapshot_meta =
  sm_snapshotToken :: string
  sm_total :: nat
  sm_builtAt :: string
  sm_pageSize :: int

text \<open>
  \<^verbatim>\<open>beginShortcutsSnapshot\<close>: \<^verbatim>\<open>tryLock(5000)\<close> on the script lock, then the
  sheet is read, the token drawn and the snapshot written; the lock is released in
  \<^verbatim>\<open>finally\<close>, so its availability is unchanged afterwards.
\<close>

definition beginShortcutsSnapshot ::
  "platform \<Rightarrow> world \<Rightarrow> ((error + snapshot_meta) \<times> world) option" where
  "beginShortcutsSnapshot plat w =
     (if script_lock_free w
      then (case getShortcutsFromSheet w of
              Inl e \<Rightarrow> Some (Inl e, w)
            | Inr allShortcuts \<Rightarrow>
                let token = next_uuid w;
                    meta = \<lparr>sm_snapshotToken = token, sm_total = length allShortcuts,
                             sm_builtAt = now_iso w, sm_pageSize = CFG_INITIAL_PAGE_SIZE\<rparr>
                in (case writeSnapshotCache plat w token allShortcuts of
                      None \<Rightarrow> None
                    | Some (Inl e) \<Rightarrow> Some (Inl e, w)
                    | Some (Inr w') \<Rightarrow> Some (Inr meta, w')))
      else Some (Inl ServerBusy, w))"

record page =
  items :: "shortcut list"
  offset :: int
  total :: nat
  hasMore :: bool
  snapshotToken :: string

datatype page_result = SNAPSHOT_EXPIRED | Page page

definition fetchSnapshotPage ::
  "platform \<Rightarrow> world \<Rightarrow> string \<Rightarrow> jsval \<Rightarrow> jsval \<Rightarrow> error + page_result" where
  "fetchSnapshotPage plat w token offs limit =
     (case readSnapshotCache plat w token of
        Inl e \<Rightarrow> Inl e
      | Inr None \<Rightarrow> Inr SNAPSHOT_EXPIRED
      | Inr (Some allData) \<Rightarrow>
          let start = number_or offs 0;
              count = number_or limit CFG_INITIAL_PAGE_SIZE;
              slice = js_slice allData start (start + count);
              more = (int (length allData) > start + count)
          in Inr (Page \<lparr>items = slice, offset = start + int (length slice),
                         total = length allData, hasMore = more,
                         snapshotToken = token\<rparr>))"

text \<open>
  Modelled from the spec: the page walk of the client (the UI script that drives the
  paging calls is not among the sources). Starting at an offset, it fetches pages of
  a fixed size, appending the items, and continues at the returned offset while
  \<^verbatim>\<open>hasMore\<close> holds. The first argument bounds the number of requests; \<open>None\<close>
  means the walk did not finish within the bound, met an expired snapshot or an error.
\<close>

fun walk_pages ::
  "nat \<Rightarrow> platform \<Rightarrow> world \<Rightarrow> string \<Rightarrow> int \<Rightarrow> int \<Rightarrow> shortcut list \<Rightarrow> shortcut list option" where
  "walk_pages 0 plat w token k off acc = None"
| "walk_pages (Suc fuel) plat w token k off acc =
     (case fetchSnapshotPage plat w token (JNum off) (JNum k) of
        Inr (Page p) \<Rightarrow>
          if hasMore p then walk_pages fuel plat w token k (offset p) (acc @ items p)
          else Some (acc @ items p)
      | _ \<Rightarrow> None)"


subsection \<open>Shortcut writes (\<^verbatim>\<open>upsertShortcut\<close>, \<^verbatim>\<open>deleteShortcut\<close>)\<close>

text \<open>A payload property is \<open>None\<close> when it is missing; \<^verbatim>\<open>String(x || '')\<close>.\<close>

record payload =
  p_key :: "string option"
  p_expansion :: "string option"
  p_application :: "string option"
  p_description :: "string option"
  p_language :: "string option"
  p_tags :: "string option"

definition js_str :: "string option \<Rightarrow> string" where
  "js_str x = (case x of None \<Rightarrow> [] | Some s \<Rightarrow> s)"

record api_result =
  ok :: bool
  action :: "string option"
  message :: "string option"

definition failure :: "string \<Rightarrow> api_result" where
  "failure msg = \<lparr>ok = False, action = None, message = Some msg\<rparr>"

definition validateShortcutPayload :: "payload option \<Rightarrow> api_result" where
  "validateShortcutPayload pl =
     (case pl of
        None \<Rightarrow> failure ''Missing payload.''
      | Some p \<Rightarrow>
          let key = trim (js_str (p_key p));
              expansion = trim (js_str (p_expansion p))
          in if key = [] then failure ''Snippet Name is required.''
             else if length key > CFG_MAX_KEY_LEN then failure ''Snippet Name too long.''
             else if expansion = [] then failure ''Content is required.''
             else \<lparr>ok = True, action = None, message = None\<rparr>)"

text \<open>
  \<^verbatim>\<open>stringifyError_\<close>: the text of a caught error (the stack trace of the platform
  is represented by the message).
\<close>

fun stringifyError :: "error \<Rightarrow> string" where
  "stringifyError CompressionFailed = ''Error: Compression failed''"
| "stringifyError DecompressionFailed = ''Error: Decompression failed''"
| "stringifyError ServerBusy = ''Error: Server busy. Please try again.''"
| "stringifyError LockTimeout = ''Error: Lock timeout''"
| "stringifyError (MissingSheet name) = ''Error: Missing sheet: '' @ name"
| "stringifyError (MissingHeaders hs) = ''Error: Shortcuts sheet missing headers: '' @ concat hs"
| "stringifyError TypeError = ''TypeError''"

record shortcut_cols =
  col_id :: nat
  col_key :: nat
  col_expansion :: nat
  col_application :: nat
  col_description :: nat
  col_language :: nat
  col_tags :: nat
  col_updatedAt :: nat

definition col_index :: "(string \<rightharpoonup> nat) \<Rightarrow> string \<Rightarrow> nat" where
  "col_index idx h = (case idx h of None \<Rightarrow> 0 | Some i \<Rightarrow> i)"

text \<open>
  \<^verbatim>\<open>getShortcutsHeaderAndColMap_\<close> raises when a header is missing, so every
  column index it returns comes from the header row.
\<close>

definition getShortcutsHeaderAndColMap :: "sheet \<Rightarrow> error + row \<times> shortcut_cols" where
  "getShortcutsHeaderAndColMap sh =
     (let header = pad_row (getLastColumn sh) (first_row sh);
          idx = indexHeader header;
          missing = filter (\<lambda>h. idx h = None) HEADERS_SHORTCUTS
      in if missing \<noteq> [] then Inl (MissingHeaders missing)
         else Inr (header,
                   \<lparr>col_id = col_index idx ''ID'',
                    col_key = col_index idx ''Snippet Name'',
                    col_expansion = col_index idx ''Content'',
                    col_application = col_index idx ''Application'',
                    col_description = col_index idx ''Description'',
                    col_language = col_index idx ''Language'',
                    col_tags = col_index idx ''Tags'',
                    col_updatedAt = col_index idx ''UpdatedAt''\<rparr>))"

definition build_row :: "nat \<Rightarrow> shortcut_cols \<Rightarrow> string \<Rightarrow> payload \<Rightarrow> string \<Rightarrow> row" where
  "build_row width col key p nowIso =
     (let r0 = replicate width [];
          r1 = js_set r0 (col_key col) key;
          r2 = js_set r1 (col_expansion col) (take CFG_MAX_FIELD_LEN (js_str (p_expansion p)));
          r3 = js_set r2 (col_application col) (take CFG_MAX_APP_LEN (js_str (p_application p)));
          r4 = js_set r3 (col_description col) (take CFG_MAX_DESC_LEN (js_str (p_description p)));
          r5 = js_set r4 (col_language col) (take CFG_MAX_LANGUAGE_LEN (js_str (p_language p)));
          r6 = js_set r5 (col_tags col) (take CFG_MAX_TAGS_LEN (js_str (p_tags p)))
      in js_set r6 (col_updatedAt col) nowIso)"

text \<open>
  \<^verbatim>\<open>upsertShortcut\<close>. \<^verbatim>\<open>ensureSheets_()\<close> and \<^verbatim>\<open>lock.waitLock(30000)\<close> come
  before the \<^verbatim>\<open>try\<close>: a lock that cannot be acquired raises. Everything raised
  inside the \<^verbatim>\<open>try\<close> is caught and reported as \<^verbatim>\<open>ok: false\<close>; the lock is
  released in \<^verbatim>\<open>finally\<close>.
\<close>

definition upsertShortcut :: "world \<Rightarrow> payload option \<Rightarrow> (error + api_result) \<times> world" where
  "upsertShortcut w pl =
     (let w1 = ensureSheets w
      in if \<not> document_lock_free w1 then (Inl LockTimeout, w1)
         else
           let v = validateShortcutPayload pl
           in if \<not> ok v then (Inr v, w1)
              else (case getSheet w1 CFG_SHEET_SHORTCUTS of
                Inl e \<Rightarrow> (Inr (failure (''Upsert failed: '' @ stringifyError e)), w1)
              | Inr sh \<Rightarrow>
                 (case getShortcutsHeaderAndColMap sh of
                    Inl e \<Rightarrow> (Inr (failure (''Upsert failed: '' @ stringifyError e)), w1)
                  | Inr (header, col) \<Rightarrow>
                     (case pl of
                        None \<Rightarrow> (Inr (failure (''Upsert failed: '' @ stringifyError TypeError)), w1)
                      | Some p \<Rightarrow>
                          let width = length header;
                              nowIso = now_iso w1;
                              key = trim (js_str (p_key p));
                              allKeys = getColumnValues sh (col_key col);
                              matchingRows = findAllRowsByKey allKeys key;
                              hadExisting = (length matchingRows > 0);
                              r = build_row width col key p nowIso;
                              sh1 = (if length matchingRows > 0
                                     then deleteRows (sort_desc matchingRows) sh else sh);
                              sh2 = appendRow r sh1;
                              w2 = invalidateShortcutsCache
                                     (bumpCacheVersion (w1\<lparr>shortcuts_sheet := Some sh2\<rparr>))
                          in (Inr \<lparr>ok = True,
                                   action = Some (if hadExisting then ''updated'' else ''created''),
                                   message = Some ((if hadExisting then ''Updated shortcut: ''
                                                    else ''Created shortcut: '') @ key)\<rparr>,
                              w2)))))"

subsection \<open>Favorites (\<^verbatim>\<open>src/favorites.gs\<close>)\<close>

record favorite_cols =
  fcol_userEmail :: "nat option"
  fcol_key :: "nat option"
  fcol_createdAt :: "nat option"

definition getFavoritesColumnMap :: "row \<Rightarrow> favorite_cols" where
  "getFavoritesColumnMap header =
     (let idx = indexHeader header
      in \<lparr>fcol_userEmail = idx ''UserEmail'', fcol_key = idx ''Snippet Name'',
          fcol_createdAt = idx ''CreatedAt''\<rparr>)"

text \<open>
  \<^verbatim>\<open>removeFavoriteForAllUsers_\<close>: data row \<open>i\<close> (counted from 1 after the header)
  is sheet row \<open>i + 1\<close>; the rows are deleted from the last match to the first.
\<close>

definition removeFavoriteForAllUsers :: "world \<Rightarrow> string \<Rightarrow> error + world" where
  "removeFavoriteForAllUsers w key =
     (let k = trim key
      in if k = [] then Inr w
         else (case getSheet w CFG_SHEET_FAVORITES of
                 Inl e \<Rightarrow> Inl e
               | Inr sh \<Rightarrow>
                   let data = getDataValues sh
                   in if length data \<le> 1 then Inr w
                      else let col = getFavoritesColumnMap (data ! 0);
                               rowsToDelete =
                                 rows_where 2 (\<lambda>r. trim (cell_opt r (fcol_key col)) = k) (tl data)
                           in Inr (w\<lparr>favorites_sheet :=
                                        Some (deleteRows (rev rowsToDelete) sh)\<rparr>)))"

record fav_result =
  status :: string
  snippet :: string
  fav_message :: "string option"

text \<open>
  \<^verbatim>\<open>updateFavoriteStatus_\<close>. The script lock is awaited inside the \<^verbatim>\<open>try\<close>, so
  a lock that cannot be acquired is reported as status \<^verbatim>\<open>error\<close>.
\<close>

definition updateFavoriteStatus :: "world \<Rightarrow> string \<Rightarrow> string \<Rightarrow> fav_result \<times> world" where
  "updateFavoriteStatus w snippetName mode =
     (let userEmail = user_email w
      in if userEmail = []
         then (\<lparr>status = ''error'', snippet = snippetName,
                 fav_message = Some ''User email not available. Please reload the app.''\<rparr>, w)
         else (case favorites_sheet w of
            None \<Rightarrow> (\<lparr>status = ''error'', snippet = snippetName,
                        fav_message = Some ''Favorites sheet not found.''\<rparr>, w)
          | Some sh \<Rightarrow>
              if \<not> script_lock_free w
              then (\<lparr>status = ''error'', snippet = snippetName,
                      fav_message = Some (''Failed to update favorite: '' @ ''Lock timeout'')\<rparr>, w)
              else
                let data = getDataValues sh;
                    sh0 = (if length data = 0 then appendRow HEADERS_FAVORITES sh else sh);
                    header = (if length data > 0 then data ! 0 else HEADERS_FAVORITES);
                    col = getFavoritesColumnMap header;
                    targetEmail = trim userEmail;
                    targetKey = trim snippetName
                in if targetKey = []
                   then (\<lparr>status = ''error'', snippet = [],
                           fav_message = Some ''Invalid snippet name.''\<rparr>,
                         w\<lparr>favorites_sheet := Some sh0\<rparr>)
                   else
                     let rowsToDelete =
                           rows_where 2
                             (\<lambda>r. trim (cell_opt r (fcol_userEmail col)) = targetEmail \<and>
                                  trim (cell_opt r (fcol_key col)) = targetKey)
                             (tl data);
                         exists = (length rowsToDelete > 0);
                         shouldAdd =
                           (if mode = ''toggle'' then \<not> exists
                            else if mode = ''force_add''
                                 then (if exists then length rowsToDelete > 1 else True)
                                 else False);
                         shouldDelete =
                           (if mode = ''toggle'' then exists
                            else if mode = ''force_add''
                                 then (exists \<and> length rowsToDelete > 1)
                                 else if mode = ''force_remove'' then exists else False);
                         resultStatus =
                           (if mode = ''toggle'' then (if exists then ''removed'' else ''added'')
                            else if mode = ''force_add'' then ''added''
                                 else if mode = ''force_remove'' then ''removed''
                                      else ''unchanged'');
                         sh1 = (if shouldDelete \<and> length rowsToDelete > 0
                                then deleteRows (sort_desc rowsToDelete) sh0 else sh0);
                         sh2 = (if shouldAdd
                                then appendRow [userEmail, targetKey, now_iso w] sh1 else sh1)
                     in (\<lparr>status = resultStatus, snippet = targetKey, fav_message = None\<rparr>,
                         w\<lparr>favorites_sheet := Some sh2\<rparr>)))"

definition addToFavorites :: "world \<Rightarrow> string \<Rightarrow> fav_result \<times> world" where
  "addToFavorites w snippetName = updateFavoriteStatus w snippetName ''force_add''"

text \<open>
  \<^verbatim>\<open>deleteShortcut\<close>: as in \<^verbatim>\<open>upsertShortcut\<close> the lock is awaited before the
  \<^verbatim>\<open>try\<close>. An error raised by the favorites clean-up is caught after the shortcut
  rows are gone.
\<close>

definition deleteShortcut :: "world \<Rightarrow> string \<Rightarrow> (error + api_result) \<times> world" where
  "deleteShortcut w key =
     (let w1 = ensureSheets w
      in if \<not> document_lock_free w1 then (Inl LockTimeout, w1)
         else
           let k = trim key
           in if k = [] then (Inr (failure ''Missing shortcut key.''), w1)
              else (case getSheet w1 CFG_SHEET_SHORTCUTS of
                Inl e \<Rightarrow> (Inr (failure (''Delete failed: '' @ stringifyError e)), w1)
              | Inr sh \<Rightarrow>
                 (case getShortcutsHeaderAndColMap sh of
                    Inl e \<Rightarrow> (Inr (failure (''Delete failed: '' @ stringifyError e)), w1)
                  | Inr (header, col) \<Rightarrow>
                      let allKeys = getColumnValues sh (col_key col);
                          matchingRows = findAllRowsByKey allKeys k
                      in if length matchingRows = 0
                         then (Inr (failure (''Shortcut not found: '' @ k)), w1)
                         else
                           let w2 = w1\<lparr>shortcuts_sheet :=
                                         Some (deleteRows (sort_desc matchingRows) sh)\<rparr>
                           in (case removeFavoriteForAllUsers w2 k of
                                 Inl e \<Rightarrow>
                                   (Inr (failure (''Delete failed: '' @ stringifyError e)), w2)
                               | Inr w3 \<Rightarrow>
                                   (Inr \<lparr>ok = True, action = None,
                                         message = Some (''Deleted shortcut: '' @ k)\<rparr>,
                                    invalidateShortcutsCache (bumpCacheVersion w3))))))"

subsection \<open>Notions used in the statements\<close>

text \<open>
  The data rows of a sheet (all rows but the header), the column of the header
  \<^verbatim>\<open>Snippet Name\<close> as \<^verbatim>\<open>getShortcutsHeaderAndColMap_\<close> finds it, and the data
  rows whose cell in a column, trimmed, is a given key.
\<close>

definition data_rows :: "sheet option \<Rightarrow> row list" where
  "data_rows s = (case s of None \<Rightarrow> [] | Some sh \<Rightarrow> tl sh)"

definition key_col_of :: "sheet option \<Rightarrow> nat option" where
  "key_col_of s =
     (case s of
        None \<Rightarrow> None
      | Some sh \<Rightarrow>
          (case getShortcutsHeaderAndColMap sh of
             Inl e \<Rightarrow> None
           | Inr (header, col) \<Rightarrow> Some (col_key col)))"

definition rows_for_key :: "nat \<Rightarrow> sheet option \<Rightarrow> string \<Rightarrow> row list" where
  "rows_for_key c s k = filter (\<lambda>r. trim (cell r c) = k) (data_rows s)"

definition is_upper :: "char \<Rightarrow> bool" where
  "is_upper c = (c \<in> set upper_letters)"

text \<open>What a successful header lookup says about the columns it returns.\<close>

definition cols_ok :: "row \<Rightarrow> shortcut_cols \<Rightarrow> bool" where
  "cols_ok r col \<longleftrightarrow>
     indexHeader r ''Snippet Name'' = Some (col_key col) \<and>
     col_key col < length r \<and> col_expansion col < length r \<and> col_application col < length r \<and>
     col_description col < length r \<and> col_language col < length r \<and> col_tags col < length r \<and>
     col_updatedAt col < length r \<and>
     col_expansion col \<noteq> col_key col \<and> col_application col \<noteq> col_key col \<and>
     col_description col \<noteq> col_key col \<and> col_language col \<noteq> col_key col \<and>
     col_tags col \<noteq> col_key col \<and> col_updatedAt col \<noteq> col_key col"

text \<open>The key column of the Favorites sheet, as \<^verbatim>\<open>getFavoritesColumnMap_\<close> finds it.\<close>

definition fav_key_col_of :: "sheet option \<Rightarrow> nat option" where
  "fav_key_col_of s =
     (case s of None \<Rightarrow> None | Some sh \<Rightarrow> fcol_key (getFavoritesColumnMap (first_row sh)))"

text \<open>
  The favorite rows of a pair of user and key in a sheet of the standard layout (user
  in the first column, key in the second), and the condition that the header row of
  the Favorites sheet makes \<^verbatim>\<open>getFavoritesColumnMap_\<close> find these two columns there,
  as it does after \<^verbatim>\<open>ensureSheets_\<close> on a sheet without extra columns of the same
  names.
\<close>

definition favorite_rows :: "sheet option \<Rightarrow> string \<Rightarrow> string \<Rightarrow> row list" where
  "favorite_rows s email key =
     filter (\<lambda>r. trim (cell r 0) = trim email \<and> trim (cell r 1) = trim key) (data_rows s)"

definition fav_header_ok :: "sheet \<Rightarrow> bool" where
  "fav_header_ok sh \<longleftrightarrow>
     sh \<noteq> [] \<and> fcol_userEmail (getFavoritesColumnMap (first_row sh)) = Some 0 \<and>
     fcol_key (getFavoritesColumnMap (first_row sh)) = Some 1"

text \<open>Two calls of \<^verbatim>\<open>addToFavorites(key)\<close> in succession: the second result, and the world after it.\<close>

definition addToFavorites_twice :: "world \<Rightarrow> string \<Rightarrow> fav_result \<times> world" where
  "addToFavorites_twice w key = addToFavorites (snd (addToFavorites w key)) key"

subsection \<open>Sample data\<close>

definition demo_chunk_cache :: "string \<rightharpoonup> string" where
  "demo_chunk_cache = [''P_1'' \<mapsto> ''abc'', ''P_2'' \<mapsto> ''def'', ''P_3'' \<mapsto> ''g'']"

text \<open>
  A toy platform for the examples: "compression" prefixes the text with \<^verbatim>\<open>gz:\<close>,
  and the JSON functions know one row list and the meta records of one and two chunks.
\<close>

definition demo_row :: "string \<Rightarrow> string \<Rightarrow> shortcut" where
  "demo_row i k =
     \<lparr>sc_id = i, sc_key = k, sc_expansion = ''text'', sc_application = [],
      sc_description = [], sc_language = [], sc_tags = [], sc_updatedAt = []\<rparr>"

definition demo_rows :: "shortcut list" where
  "demo_rows = [demo_row ''ROW-2'' ''a'', demo_row ''ROW-3'' ''b'', demo_row ''ROW-4'' ''c'']"

definition demo_meta :: "nat \<Rightarrow> cache_meta" where
  "demo_meta n = \<lparr>chunkCount = n, encoding = ''gz-b64'', updatedAt = ''t0''\<rparr>"

definition demo_platform :: platform where
  "demo_platform =
     \<lparr>gzip_b64 = (\<lambda>s. Some (''gz:'' @ s)),
      ungzip_b64 = (\<lambda>b. if take 3 b = ''gz:'' then Some (drop 3 b) else None),
      json_of_rows = (\<lambda>rs. if rs = demo_rows then ''[a,b,c]'' else ''[]''),
      rows_of_json = (\<lambda>s. if s = ''[a,b,c]'' then Some demo_rows
                            else if s = ''[]'' then Some [] else None),
      json_of_meta = (\<lambda>m. string_of_nat (chunkCount m)),
      meta_of_json = (\<lambda>s. if s = ''1'' then Some (demo_meta 1)
                            else if s = ''2'' then Some (demo_meta 2) else None)\<rparr>"

definition demo_world :: world where
  "demo_world =
     \<lparr>shortcuts_sheet =
        Some [HEADERS_SHORTCUTS,
              [[], ''a'', ''text''], [[], ''b'', ''text''], [[], ''c'', ''text'']],
      favorites_sheet = Some [HEADERS_FAVORITES],
      cache = Map.empty,
      cache_put_ok = True,
      cache_ver = None,
      script_lock_free = True,
      document_lock_free = True,
      user_email = ''ann@example.org'',
      now_iso = ''t0'',
      next_uuid = ''tok''\<rparr>"

text \<open>The cache after a snapshot of the three rows was stored under token \<^verbatim>\<open>tok\<close>.\<close>

definition demo_snapshot_world :: world where
  "demo_snapshot_world =
     demo_world\<lparr>cache := [''SNAP_tok_META'' \<mapsto> ''1'', ''SNAP_tok_1'' \<mapsto> ''gz:[a,b,c]'']\<rparr>"

text \<open>A snapshot of two chunks whose second chunk was evicted.\<close>

definition demo_evicted_world :: world where
  "demo_evicted_world =
     demo_world\<lparr>cache := [''SNAP_tok_META'' \<mapsto> ''2'', ''SNAP_tok_1'' \<mapsto> ''gz:[a,b''] \<rparr>"

text \<open>The column map of a sheet whose header row is exactly \<^verbatim>\<open>HEADERS_SHORTCUTS\<close>.\<close>

definition canonical_cols :: shortcut_cols where
  "canonical_cols =
     \<lparr>col_id = 0, col_key = 1, col_expansion = 2, col_application = 3, col_description = 4,
      col_language = 5, col_tags = 6, col_updatedAt = 7\<rparr>"

text \<open>A sheet with three rows for the key \<^verbatim>\<open>foo\<close> and one for \<^verbatim>\<open>bar\<close>.\<close>

definition demo_dup_rows :: "row list" where
  "demo_dup_rows =
     [[[], ''foo'', ''one''], [[], ''bar'', ''two''], [[], '' foo '', ''three''],
      [[], ''foo'', ''four'']]"

definition demo_dup_world :: world where
  "demo_dup_world = demo_world\<lparr>shortcuts_sheet := Some (HEADERS_SHORTCUTS # demo_dup_rows)\<rparr>"

definition demo_payload :: payload where
  "demo_payload =
     \<lparr>p_key = Some '' foo'', p_expansion = Some ''new'', p_application = None,
      p_description = None, p_language = None, p_tags = None\<rparr>"

definition demo_new_row :: row where
  "demo_new_row = [[], ''foo'', ''new'', [], [], [], [], ''t0'']"

text \<open>Favorites of two users for the keys \<^verbatim>\<open>foo\<close> and \<^verbatim>\<open>bar\<close>.\<close>

definition demo_fav_rows :: "row list" where
  "demo_fav_rows =
     [[''ann@example.org'', ''foo'', ''t1''], [''bob@example.org'', ''foo'', ''t2''],
      [''ann@example.org'', ''bar'', ''t3''], [''ann@example.org'', '' foo '', ''t4'']]"

definition demo_fav_world :: world where
  "demo_fav_world = demo_dup_world\<lparr>favorites_sheet := Some (HEADERS_FAVORITES # demo_fav_rows)\<rparr>"

definition canonical_snapshot_cols :: snapshot_cols where
  "canonical_snapshot_cols =
     \<lparr>scol_id = Some 0, scol_key = Some 1, scol_expansion = Some 2, scol_application = Some 3,
      scol_description = Some 4, scol_language = Some 5, scol_tags = Some 6,
      scol_updatedAt = Some 7\<rparr>"

text \<open>The world of the examples with a cache that rejects writes.\<close>

definition demo_cache_down_world :: world where
  "demo_cache_down_world = demo_world\<lparr>cache_put_ok := False\<rparr>"

text \<open>
  A Favorites sheet with a fourth header cell that repeats \<^verbatim>\<open>Snippet Name\<close>, a world
  whose script lock is held elsewhere, and a world without a user email.
\<close>

definition demo_fav_extra_col_world :: world where
  "demo_fav_extra_col_world =
     demo_world\<lparr>favorites_sheet :=
        Some [[''UserEmail'', ''Snippet Name'', ''CreatedAt'', ''Snippet Name'']]\<rparr>"

definition demo_busy_world :: world where
  "demo_busy_world = demo_world\<lparr>script_lock_free := False\<rparr>"

definition demo_anonymous_world :: world where
  "demo_anonymous_world = demo_world\<lparr>user_email := []\<rparr>"

section \<open>Properties\<close>

subsection \<open>Trimming, chunking and joining\<close>

lemma trim_Nil [simp]: "trim [] = []"
  by (simp add: trim_def)

lemma dropWhile_rev_dropWhile:
  "dropWhile P (rev (dropWhile P (rev (dropWhile P s)))) = rev (dropWhile P (rev (dropWhile P s)))"
proof (cases "dropWhile P s")
  case Nil
  then show ?thesis by (simp del: dropWhile_eq_Nil_conv)
next
  case (Cons a t)
  then have na: "\<not> P a" using hd_dropWhile[of P s] by (metis list.distinct(1) list.sel(1))
  have "rev (dropWhile P (rev (a # t))) \<noteq> []"
    using na by (simp add: dropWhile_append)
  moreover have "hd (rev (dropWhile P (rev (a # t)))) = a"
    using na by (induction t rule: rev_induct) (auto simp: dropWhile_append)
  ultimately show ?thesis using na Cons
    by (cases "rev (dropWhile P (rev (a # t)))") auto
qed

lemma trim_idem [simp]: "trim (trim s) = trim s"
  unfolding trim_def by (simp add: dropWhile_rev_dropWhile dropWhile_idem)

lemma substring_chunk: "i < length s \<Longrightarrow> substring s i (i + n) = take n (drop i s)"
  by (simp add: substring_def min_def max_def Let_def)

lemma chunk_loop_total:
  assumes "0 < n"
  shows "\<exists>ys. chunk_loop s n i out = Some (out @ ys) \<and>
              (\<forall>j<length ys. ys ! j = take n (drop (i + j * n) s) \<and> i + j * n < length s) \<and>
              length s \<le> i + length ys * n"
  using assms
proof (induction "length s - i" arbitrary: i out rule: less_induct)
  case less
  show ?case
  proof (cases "i < length s")
    case False
    then show ?thesis by (subst chunk_loop.simps) simp
  next
    case True
    then have m: "length s - (i + n) < length s - i" using less.prems by simp
    from less.hyps[OF m less.prems, of "out @ [substring s i (i + n)]"]
    obtain ys where ys: "chunk_loop s n (i + n) (out @ [substring s i (i + n)]) =
                          Some ((out @ [substring s i (i + n)]) @ ys)"
      and nth: "\<forall>j<length ys. ys ! j = take n (drop (i + n + j * n) s) \<and> i + n + j * n < length s"
      and len: "length s \<le> i + n + length ys * n"
      by blast
    let ?zs = "take n (drop i s) # ys"
    have 1: "chunk_loop s n i out = Some (out @ ?zs)"
      using ys[unfolded substring_chunk[OF True]]
      by (subst chunk_loop.simps) (simp add: True substring_chunk)
    have 2: "\<forall>j<length ?zs. ?zs ! j = take n (drop (i + j * n) s) \<and> i + j * n < length s"
    proof (intro allI impI)
      fix j assume "j < length ?zs"
      then show "?zs ! j = take n (drop (i + j * n) s) \<and> i + j * n < length s"
        using nth True by (cases j) (auto simp: add.assoc add.commute add.left_commute)
    qed
    have 3: "length s \<le> i + length ?zs * n" using len by simp
    from 1 2 3 show ?thesis by blast
  qed
qed

lemma concat_chunks_take:
  "concat (map (\<lambda>j. take n (drop (j * n) s)) [0..<m]) = take (m * n) s"
proof (induction m)
  case 0
  then show ?case by simp
next
  case (Suc m)
  have "take (m * n) s @ take n (drop (m * n) s) = take (m * n + n) s"
    by (simp add: take_add)
  with Suc show ?case by (simp add: add.commute)
qed

lemma readChunks_loop_ok:
  assumes "\<forall>j. i \<le> j \<and> j \<le> count \<longrightarrow> chunks (chunk_key prefix j) = Some (f j) \<and> f j \<noteq> []"
  shows "readChunks_loop chunks prefix count i acc = Some (acc @ concat (map f [i..<Suc count]))"
  using assms
proof (induction chunks prefix count i acc rule: readChunks_loop.induct)
  case (1 chunks prefix count i combined)
  show ?case
  proof (cases "i \<le> count")
    case False
    then show ?thesis by simp
  next
    case True
    have here: "chunks (chunk_key prefix i) = Some (f i)" "f i \<noteq> []"
      using "1.prems" True by auto
    have ih: "readChunks_loop chunks prefix count (Suc i) (combined @ f i) =
              Some ((combined @ f i) @ concat (map f [Suc i..<Suc count]))"
      using "1.IH"[OF True here(1) here(2)] "1.prems" by simp
    have "[i..<Suc count] = i # [Suc i..<Suc count]"
      using True by (simp add: upt_conv_Cons)
    then show ?thesis using True here ih by simp
  qed
qed

lemma readChunks_loop_missing:
  assumes "i \<le> m" "m \<le> count" "chunks (chunk_key prefix m) = None"
  shows "readChunks_loop chunks prefix count i acc = None"
  using assms
proof (induction chunks prefix count i acc rule: readChunks_loop.induct)
  case (1 chunks prefix count i combined)
  show ?case
  proof (cases "chunks (chunk_key prefix i)")
    case None
    then show ?thesis using "1.prems" by simp
  next
    case (Some part)
    then have "i \<noteq> m" using "1.prems" by auto
    then have "Suc i \<le> m" using "1.prems" by simp
    then show ?thesis using "1.IH"[OF _ Some] "1.prems" Some by simp
  qed
qed

lemma readChunksByKey_ok:
  assumes "\<forall>j<length cs. c (chunk_key prefix (Suc j)) = Some (cs ! j)"
    and "\<forall>x\<in>set cs. x \<noteq> []"
  shows "readChunksByKey c prefix (length cs) = Some (concat cs)"
proof -
  let ?keys = "map (chunk_key prefix) [1..<Suc (length cs)]"
  let ?f = "\<lambda>j. cs ! (j - 1)"
  have "\<forall>j. 1 \<le> j \<and> j \<le> length cs \<longrightarrow>
          (c |` set ?keys) (chunk_key prefix j) = Some (?f j) \<and> ?f j \<noteq> []"
  proof (intro allI impI)
    fix j assume j: "1 \<le> j \<and> j \<le> length cs"
    then have "j \<in> set [1..<Suc (length cs)]" by auto
    then have mem: "chunk_key prefix j \<in> set ?keys" by (simp only: set_map) (rule imageI)
    from j obtain j' where j': "j = Suc j'" "j' < length cs" by (cases j) auto
    have "c (chunk_key prefix j) = Some (cs ! j')" using assms(1) j' by simp
    moreover have "cs ! j' \<noteq> []" using assms(2) j'(2) by auto
    ultimately show "(c |` set ?keys) (chunk_key prefix j) = Some (?f j) \<and> ?f j \<noteq> []"
      using mem j' by (simp add: restrict_map_def)
  qed
  then have "readChunks_loop (c |` set ?keys) prefix (length cs) 1 [] =
             Some ([] @ concat (map ?f [1..<Suc (length cs)]))"
    by (rule readChunks_loop_ok)
  moreover have "map ?f [1..<Suc (length cs)] = cs"
    by (rule nth_equalityI) (simp_all del: upt_Suc)
  ultimately show ?thesis by (simp add: readChunksByKey_def)
qed

text \<open>
  Claim C4. For every string \<open>T\<close> and chunk size \<open>n \<ge> 1\<close>, \<^verbatim>\<open>chunkString_(T, n)\<close>
  returns; its chunks are the consecutive substrings of \<open>T\<close> in order, none empty,
  each of length at most \<open>n\<close> and all but the last of length exactly \<open>n\<close>; their
  concatenation is \<open>T\<close>, and \<^verbatim>\<open>readChunksByKey_\<close> on a cache that holds them
  under the numbered keys returns \<open>T\<close>.
\<close>

theorem chunkString_join:
  assumes "1 \<le> n"
  shows "\<exists>cs. chunkString T n = Some cs \<and> concat cs = T \<and>
           (\<forall>j<length cs. cs ! j = substring T (j * n) (j * n + n)) \<and>
           (\<forall>c\<in>set cs. c \<noteq> [] \<and> length c \<le> n) \<and>
           (\<forall>j. Suc j < length cs \<longrightarrow> length (cs ! j) = n) \<and>
           (\<forall>c prefix. (\<forall>j<length cs. c (chunk_key prefix (Suc j)) = Some (cs ! j)) \<longrightarrow>
                readChunksByKey c prefix (length cs) = Some T)"
proof -
  from assms have n: "0 < n" by simp
  from chunk_loop_total[OF n, of T 0 "[]"]
  obtain ys where run: "chunkString T n = Some ys"
    and nth: "\<And>j. j < length ys \<Longrightarrow> ys ! j = take n (drop (j * n) T)"
    and inside: "\<And>j. j < length ys \<Longrightarrow> j * n < length T"
    and len: "length T \<le> length ys * n"
    by (auto simp: chunkString_def)
  have "ys = map (\<lambda>j. take n (drop (j * n) T)) [0..<length ys]"
    by (rule nth_equalityI) (simp_all add: nth)
  then have "concat ys = take (length ys * n) T"
    using concat_chunks_take[of n T "length ys"] by simp
  then have cat: "concat ys = T" using len by simp
  have contiguous: "\<forall>j<length ys. ys ! j = substring T (j * n) (j * n + n)"
    using nth inside by (simp add: substring_chunk)
  have bounds: "\<forall>c\<in>set ys. c \<noteq> [] \<and> length c \<le> n"
  proof
    fix c assume "c \<in> set ys"
    then obtain j where j: "j < length ys" "c = ys ! j" by (auto simp: in_set_conv_nth)
    then have "c = take n (drop (j * n) T)" "j * n < length T" using nth inside by auto
    then show "c \<noteq> [] \<and> length c \<le> n" using n by auto
  qed
  have full: "\<forall>j. Suc j < length ys \<longrightarrow> length (ys ! j) = n"
  proof (intro allI impI)
    fix j assume j: "Suc j < length ys"
    then have "Suc j * n < length T" using inside by blast
    then have "n \<le> length T - j * n" by simp
    then show "length (ys ! j) = n" using nth[of j] j by simp
  qed
  have rd: "\<forall>c prefix. (\<forall>j<length ys. c (chunk_key prefix (Suc j)) = Some (ys ! j)) \<longrightarrow>
                readChunksByKey c prefix (length ys) = Some T"
    using readChunksByKey_ok[of ys] bounds cat by auto
  from run cat contiguous bounds full rd show ?thesis by blast
qed

lemma chunk_demo: "chunkString ''abcdefg'' 3 = Some [''abc'', ''def'', ''g'']"
  by (simp add: chunkString_def chunk_loop.simps substring_def)

theorem chunkString_join_witness:
  "chunkString ''abcdefg'' 3 = Some [''abc'', ''def'', ''g''] \<and>
   concat [''abc'', ''def'', ''g''] = ''abcdefg'' \<and>
   readChunksByKey demo_chunk_cache ''P'' 3 = Some ''abcdefg''"
proof -
  have one: "(1::nat) \<le> 3" by simp
  from chunkString_join[OF one, of "''abcdefg''"]
  obtain cs where cs: "chunkString ''abcdefg'' 3 = Some cs" "concat cs = ''abcdefg''"
    and rd: "\<forall>c prefix. (\<forall>j<length cs. c (chunk_key prefix (Suc j)) = Some (cs ! j)) \<longrightarrow>
                readChunksByKey c prefix (length cs) = Some ''abcdefg''"
    by blast
  from cs(1) have eq: "cs = [''abc'', ''def'', ''g'']" by (simp add: chunk_demo)
  have "\<forall>j<length cs. demo_chunk_cache (chunk_key ''P'' (Suc j)) = Some (cs ! j)"
    by (simp add: eq demo_chunk_cache_def chunk_key_def digit_char_def less_Suc_eq numeral_3_eq_3)
  with rd have "readChunksByKey demo_chunk_cache ''P'' (length cs) = Some ''abcdefg''" by blast
  with cs eq show ?thesis by (simp add: numeral_3_eq_3)
qed

subsection \<open>Paging\<close>

lemma js_slice_window:
  assumes "0 \<le> off" "0 \<le> k"
  shows "js_slice xs off (off + k) = take (nat k) (drop (nat off) xs)"
proof (cases "off \<le> int (length xs)")
  case True
  then show ?thesis using assms
    by (auto simp: js_slice_def Let_def min_def max_def intro!: take_all_iff[THEN iffD2] )
next
  case False
  then show ?thesis using assms by (simp add: js_slice_def Let_def min_def)
qed

lemma number_or_pos: "n \<noteq> 0 \<Longrightarrow> number_or (JNum n) d = n"
  by (simp add: number_or_def)

lemma number_or_zero: "number_or (JNum 0) d = d"
  by (simp add: number_or_def)

lemma fetch_page_value:
  assumes "readSnapshotCache plat w token = Inr (Some rows)" "0 \<le> off" "1 \<le> k"
  shows "fetchSnapshotPage plat w token (JNum off) (JNum k) =
         Inr (Page \<lparr>items = take (nat k) (drop (nat off) rows),
                     offset = off + int (length (take (nat k) (drop (nat off) rows))),
                     total = length rows,
                     hasMore = (int (length rows) > off + k),
                     snapshotToken = token\<rparr>)"
proof -
  have k: "number_or (JNum k) CFG_INITIAL_PAGE_SIZE = k" using assms(3) by (simp add: number_or_def)
  have o: "number_or (JNum off) 0 = off" by (simp add: number_or_def)
  have s: "js_slice rows off (off + k) = take (nat k) (drop (nat off) rows)"
    using assms by (simp add: js_slice_window)
  show ?thesis by (simp add: fetchSnapshotPage_def assms(1) k o s Let_def)
qed

lemma walk_pages_from:
  assumes "readSnapshotCache plat w token = Inr (Some rows)" "1 \<le> k"
  shows "off \<le> length rows \<Longrightarrow> length rows - off < fuel \<Longrightarrow>
         walk_pages fuel plat w token k (int off) acc = Some (acc @ drop off rows)"
proof (induction fuel arbitrary: off acc)
  case 0
  then show ?case by simp
next
  case (Suc fuel)
  have pg: "fetchSnapshotPage plat w token (JNum (int off)) (JNum k) =
         Inr (Page \<lparr>items = take (nat k) (drop off rows),
                     offset = int off + int (length (take (nat k) (drop off rows))),
                     total = length rows,
                     hasMore = (int (length rows) > int off + k),
                     snapshotToken = token\<rparr>)"
    using fetch_page_value[OF assms(1) _ assms(2), of "int off"] by simp
  show ?case
  proof (cases "int (length rows) > int off + k")
    case True
    then have kk: "off + nat k < length rows" using assms(2) by linarith
    then have len: "length (take (nat k) (drop off rows)) = nat k" by simp
    have off': "int off + int (nat k) = int (off + nat k)" by simp
    have "length rows - (off + nat k) < fuel" using Suc.prems kk assms(2) by linarith
    from Suc.IH[OF _ this, of "acc @ take (nat k) (drop off rows)"] kk
    have "walk_pages fuel plat w token k (int (off + nat k)) (acc @ take (nat k) (drop off rows))
          = Some ((acc @ take (nat k) (drop off rows)) @ drop (off + nat k) rows)" by simp
    moreover have "take (nat k) (drop off rows) @ drop (off + nat k) rows = drop off rows"
      by (metis add.commute append_take_drop_id drop_drop)
    ultimately show ?thesis using True pg len off' by (simp del: of_nat_add)
  next
    case False
    then have "length rows - off \<le> nat k" by linarith
    then have "take (nat k) (drop off rows) = drop off rows" by simp
    then show ?thesis using False pg by simp
  qed
qed

text \<open>
  Claim C1. For a token whose snapshot is readable with row list \<open>rows\<close>, an
  integral offset \<open>off \<ge> 0\<close> and limit \<open>k \<ge> 1\<close>, \<^verbatim>\<open>fetchSnapshotPage_\<close> returns
  the items \<open>rows[off : off + k]\<close>, the offset \<open>off\<close> plus the number of items,
  the total \<open>length rows\<close> and \<open>hasMore = (length rows > off + k)\<close>; the walk
  from offset 0 with page size \<open>k\<close> ends within \<open>length rows + 1\<close> requests and
  yields exactly \<open>rows\<close>, in order.
\<close>

theorem fetchSnapshotPage_slice:
  assumes "readSnapshotCache plat w token = Inr (Some rows)" "0 \<le> off" "1 \<le> k"
  shows "fetchSnapshotPage plat w token (JNum off) (JNum k) =
           Inr (Page \<lparr>items = take (nat k) (drop (nat off) rows),
                       offset = off + int (length (take (nat k) (drop (nat off) rows))),
                       total = length rows,
                       hasMore = (int (length rows) > off + k),
                       snapshotToken = token\<rparr>) \<and>
         walk_pages (Suc (length rows)) plat w token k 0 [] = Some rows"
  using fetch_page_value[OF assms] walk_pages_from[OF assms(1) assms(3), of 0 "Suc (length rows)" "[]"]
  by simp

lemma demo_snapshot_read:
  "readSnapshotCache demo_platform demo_snapshot_world ''tok'' = Inr (Some demo_rows)"
  by (simp add: readSnapshotCache_def readCacheByKey_def readChunksByKey_def meta_key_def
      chunk_key_def digit_char_def demo_snapshot_world_def demo_world_def demo_platform_def
      demo_meta_def decodeGzB64_def restrict_map_def)

theorem fetchSnapshotPage_slice_witness:
  "fetchSnapshotPage demo_platform demo_snapshot_world ''tok'' (JNum 2) (JNum 2) =
     Inr (Page \<lparr>items = [demo_row ''ROW-4'' ''c''], offset = 3, total = 3, hasMore = False,
                 snapshotToken = ''tok''\<rparr>) \<and>
   walk_pages 4 demo_platform demo_snapshot_world ''tok'' 2 0 [] = Some demo_rows"
proof -
  have a: "(0::int) \<le> 2" and b: "(1::int) \<le> 2" by simp_all
  have n: "Suc (length demo_rows) = 4" by (simp add: demo_rows_def)
  from fetchSnapshotPage_slice[OF demo_snapshot_read a b] show ?thesis
    unfolding n by (simp add: demo_rows_def)
qed

lemma readChunksByKey_missing:
  assumes "1 \<le> i" "i \<le> count" "c (chunk_key prefix i) = None"
  shows "readChunksByKey c prefix count = None"
proof -
  have "(c |` set (map (chunk_key prefix) [1..<Suc count])) (chunk_key prefix i) = None"
    using assms(3) by (simp add: restrict_map_def)
  then show ?thesis
    unfolding readChunksByKey_def Let_def
    using readChunks_loop_missing[OF assms(1) assms(2)] by blast
qed

lemma readCacheByKey_meta_absent:
  "cache w (meta_key prefix) = None \<Longrightarrow> readCacheByKey plat w prefix = Inr None"
  by (simp add: readCacheByKey_def)

lemma readCacheByKey_chunk_absent:
  assumes "cache w (meta_key prefix) = Some raw" "meta_of_json plat raw = Some m"
    "1 \<le> i" "i \<le> chunkCount m" "cache w (chunk_key prefix i) = None"
  shows "readCacheByKey plat w prefix = Inr None"
proof -
  have "readChunksByKey (cache w) prefix (chunkCount m) = None"
    using readChunksByKey_missing[of i "chunkCount m" "cache w" prefix] assms by simp
  then show ?thesis by (simp add: readCacheByKey_def assms(1,2))
qed

text \<open>
  Claim C2. If the meta record of the snapshot is absent from the cache, or it is
  present and one of its \<open>chunkCount\<close> numbered chunks is absent, then
  \<^verbatim>\<open>fetchSnapshotPage_\<close> returns the expired signal, for every offset and limit:
  no item list is returned.
\<close>

theorem fetchSnapshotPage_expired:
  assumes "cache w (meta_key (''SNAP_'' @ token)) = None \<or>
           (\<exists>raw m i. cache w (meta_key (''SNAP_'' @ token)) = Some raw \<and>
                      meta_of_json plat raw = Some m \<and> 1 \<le> i \<and> i \<le> chunkCount m \<and>
                      cache w (chunk_key (''SNAP_'' @ token) i) = None)"
  shows "fetchSnapshotPage plat w token offs limit = Inr SNAPSHOT_EXPIRED"
  using assms
proof
  assume "cache w (meta_key (''SNAP_'' @ token)) = None"
  then have "readCacheByKey plat w (''SNAP_'' @ token) = Inr None"
    by (rule readCacheByKey_meta_absent)
  then show ?thesis by (simp add: fetchSnapshotPage_def readSnapshotCache_def)
next
  assume "\<exists>raw m i. cache w (meta_key (''SNAP_'' @ token)) = Some raw \<and>
                      meta_of_json plat raw = Some m \<and> 1 \<le> i \<and> i \<le> chunkCount m \<and>
                      cache w (chunk_key (''SNAP_'' @ token) i) = None"
  then obtain raw m i where raw: "cache w (meta_key (''SNAP_'' @ token)) = Some raw"
    and m: "meta_of_json plat raw = Some m"
    and i: "1 \<le> i" "i \<le> chunkCount m" "cache w (chunk_key (''SNAP_'' @ token) i) = None"
    by blast
  have "readCacheByKey plat w (''SNAP_'' @ token) = Inr None"
    using raw m i by (rule readCacheByKey_chunk_absent)
  then show ?thesis by (simp add: fetchSnapshotPage_def readSnapshotCache_def)
qed

theorem fetchSnapshotPage_expired_witness:
  "fetchSnapshotPage demo_platform demo_world ''tok'' (JNum 0) (JNum 2) = Inr SNAPSHOT_EXPIRED \<and>
   fetchSnapshotPage demo_platform demo_evicted_world ''tok'' (JNum 0) (JNum 2) = Inr SNAPSHOT_EXPIRED"
proof -
  have absent: "cache demo_world (meta_key (''SNAP_'' @ ''tok'')) = None"
    by (simp add: demo_world_def)
  have evicted: "\<exists>raw m i. cache demo_evicted_world (meta_key (''SNAP_'' @ ''tok'')) = Some raw \<and>
                      meta_of_json demo_platform raw = Some m \<and> 1 \<le> i \<and> i \<le> chunkCount m \<and>
                      cache demo_evicted_world (chunk_key (''SNAP_'' @ ''tok'') i) = None"
    by (rule exI[of _ "''2''"], rule exI[of _ "demo_meta 2"], rule exI[of _ 2])
       (simp add: demo_evicted_world_def demo_world_def demo_platform_def demo_meta_def
          meta_key_def chunk_key_def digit_char_def)
  show ?thesis
    using fetchSnapshotPage_expired[of demo_world "''tok''" demo_platform "JNum 0" "JNum 2"]
      fetchSnapshotPage_expired[of demo_evicted_world "''tok''" demo_platform "JNum 0" "JNum 2"]
      absent evicted
    by blast
qed

text \<open>
  Claim C9. \<^verbatim>\<open>fetchSnapshotPage_\<close> coerces its arguments: a limit that is
  missing, \<^verbatim>\<open>NaN\<close> or zero behaves as the limit 200
  (\<^verbatim>\<open>CFG.INITIAL_PAGE_SIZE\<close>), an offset that is missing, \<^verbatim>\<open>NaN\<close> or zero
  behaves as offset 0; so a request with limit 0 on a readable snapshot returns the
  first up to 200 rows, not an empty page.
\<close>

theorem fetchSnapshotPage_coercion:
  "(Number limit = None \<or> Number limit = Some 0 \<longrightarrow>
      fetchSnapshotPage plat w token offs limit =
      fetchSnapshotPage plat w token offs (JNum 200)) \<and>
   (Number offs = None \<or> Number offs = Some 0 \<longrightarrow>
      fetchSnapshotPage plat w token offs limit =
      fetchSnapshotPage plat w token (JNum 0) limit) \<and>
   (readSnapshotCache plat w token = Inr (Some rows) \<longrightarrow>
      fetchSnapshotPage plat w token (JNum 0) (JNum 0) =
        Inr (Page \<lparr>items = take 200 rows, offset = int (length (take 200 rows)),
                    total = length rows, hasMore = (200 < length rows),
                    snapshotToken = token\<rparr>))"
proof (intro conjI impI)
  assume "Number limit = None \<or> Number limit = Some 0"
  then have "number_or limit CFG_INITIAL_PAGE_SIZE = 200"
    and "number_or (JNum 200) CFG_INITIAL_PAGE_SIZE = 200"
    by (auto simp: number_or_def CFG_INITIAL_PAGE_SIZE_def)
  then show "fetchSnapshotPage plat w token offs limit =
      fetchSnapshotPage plat w token offs (JNum 200)"
    by (simp add: fetchSnapshotPage_def split: sum.split option.split)
next
  assume "Number offs = None \<or> Number offs = Some 0"
  then have "number_or offs 0 = 0" and "number_or (JNum 0) 0 = 0"
    by (auto simp: number_or_def)
  then show "fetchSnapshotPage plat w token offs limit =
      fetchSnapshotPage plat w token (JNum 0) limit"
    by (simp add: fetchSnapshotPage_def split: sum.split option.split)
next
  assume r: "readSnapshotCache plat w token = Inr (Some rows)"
  have "js_slice rows 0 (0 + 200) = take (nat 200) (drop (nat 0) rows)"
    by (rule js_slice_window) simp_all
  then show "fetchSnapshotPage plat w token (JNum 0) (JNum 0) =
        Inr (Page \<lparr>items = take 200 rows, offset = int (length (take 200 rows)),
                    total = length rows, hasMore = (200 < length rows),
                    snapshotToken = token\<rparr>)"
    by (simp add: fetchSnapshotPage_def r number_or_def CFG_INITIAL_PAGE_SIZE_def Let_def)
qed

theorem fetchSnapshotPage_coercion_witness:
  "fetchSnapshotPage demo_platform demo_snapshot_world ''tok'' JUndefined (JNum 0) =
     Inr (Page \<lparr>items = demo_rows, offset = 3, total = 3, hasMore = False,
                 snapshotToken = ''tok''\<rparr>)"
proof -
  have l: "Number (JNum 0) = None \<or> Number (JNum 0) = Some 0" by simp
  have o: "Number JUndefined = None \<or> Number JUndefined = Some 0" by simp
  have t: "take 200 demo_rows = demo_rows" by (simp add: demo_rows_def)
  have n: "length demo_rows = 3" by (simp add: demo_rows_def)
  note A = fetchSnapshotPage_coercion[of "JNum 0" demo_platform demo_snapshot_world "''tok''"
      JUndefined demo_rows]
  have 1: "fetchSnapshotPage demo_platform demo_snapshot_world ''tok'' JUndefined (JNum 0) =
        fetchSnapshotPage demo_platform demo_snapshot_world ''tok'' (JNum 0) (JNum 0)"
    using A o by blast
  have 2: "fetchSnapshotPage demo_platform demo_snapshot_world ''tok'' (JNum 0) (JNum 0) =
        Inr (Page \<lparr>items = take 200 demo_rows, offset = int (length (take 200 demo_rows)),
                    total = length demo_rows, hasMore = (200 < length demo_rows),
                    snapshotToken = ''tok''\<rparr>)"
    using A demo_snapshot_read by blast
  show ?thesis unfolding 1 2 t by (simp add: n)
qed

subsection \<open>Scanning and deleting rows\<close>

lemma rows_where_append:
  "rows_where n P (xs @ ys) = rows_where n P xs @ rows_where (n + length xs) P ys"
  by (induction xs arbitrary: n) auto

lemma rows_where_map: "rows_where n P (map g xs) = rows_where n (\<lambda>x. P (g x)) xs"
  by (induction xs arbitrary: n) auto

lemma rows_where_lower: "r \<in> set (rows_where n P xs) \<Longrightarrow> n \<le> r"
  by (induction xs arbitrary: n) (auto split: if_splits dest: Suc_leD)

lemma rows_where_sorted: "sorted (rows_where n P xs)"
  by (induction xs arbitrary: n) (auto dest!: rows_where_lower)

lemma rows_where_empty_iff: "rows_where n P xs = [] \<longleftrightarrow> filter P xs = []"
  by (induction xs arbitrary: n) auto

lemma length_rows_where: "length (rows_where n P xs) = length (filter P xs)"
  by (induction xs arbitrary: n) auto

lemma sort_desc_rows_where: "sort_desc (rows_where n P xs) = rev (rows_where n P xs)"
  by (simp add: sort_desc_def sorted_sort_id rows_where_sorted)

lemma deleteRow_middle: "deleteRow (Suc (length xs)) (xs @ x # suf) = xs @ suf"
  by (simp add: deleteRow_def)

lemma deleteRows_rev_rows_where_suffix:
  "deleteRows (rev (rows_where (Suc (length pre)) P xs)) (pre @ xs @ suf) =
   pre @ filter (\<lambda>x. \<not> P x) xs @ suf"
proof (induction xs arbitrary: suf rule: rev_induct)
  case Nil
  then show ?case by (simp add: deleteRows_def)
next
  case (snoc x xs)
  show ?case
  proof (cases "P x")
    case True
    have "deleteRow (Suc (length pre) + length xs) (pre @ (xs @ [x]) @ suf) = pre @ xs @ suf"
      using deleteRow_middle[of "pre @ xs" x suf] by simp
    then show ?thesis using True snoc[of suf]
      by (simp add: rows_where_append deleteRows_def)
  next
    case False
    then show ?thesis using snoc[of "x # suf"] by (simp add: rows_where_append)
  qed
qed

lemma deleteRows_rev_rows_where:
  "deleteRows (rev (rows_where (Suc (length pre)) P xs)) (pre @ xs) =
   pre @ filter (\<lambda>x. \<not> P x) xs"
  using deleteRows_rev_rows_where_suffix[of pre P xs "[]"] by simp

lemma deleteRows_data_rows:
  "deleteRows (rev (rows_where 2 P ds)) (h # ds) = h # filter (\<lambda>x. \<not> P x) ds"
  using deleteRows_rev_rows_where[of "[h]" P ds] by (simp add: numeral_2_eq_2)

subsection \<open>Header index\<close>

lemma lower_char_not_upper: "\<not> is_upper (lower_char c)"
proof (cases "map_of (zip upper_letters lower_letters) c")
  case None
  then have "c \<notin> set (map fst (zip upper_letters lower_letters))"
    by (simp only: map_of_eq_None_iff set_map not_False_eq_True)
  moreover have "map fst (zip upper_letters lower_letters) = upper_letters"
    by (simp add: upper_letters_def lower_letters_def)
  ultimately have "c \<notin> set upper_letters" by simp
  with None show ?thesis by (simp add: is_upper_def lower_char_def)
next
  case (Some d)
  then have "(c, d) \<in> set (zip upper_letters lower_letters)" by (rule map_of_SomeD)
  then have "d \<in> set lower_letters" by (rule set_zip_rightD)
  then have "d \<notin> set upper_letters" by (auto simp: upper_letters_def lower_letters_def)
  with Some show ?thesis by (simp add: is_upper_def lower_char_def)
qed

lemma toLowerCase_neq: "\<exists>c\<in>set name. is_upper c \<Longrightarrow> toLowerCase s \<noteq> name"
  using lower_char_not_upper by (auto simp: toLowerCase_def)

lemma indexHeader_from_Some:
  assumes "indexHeader_from i cs idx name = Some j" "\<exists>c\<in>set name. is_upper c"
  shows "idx name = Some j \<or> (i \<le> j \<and> j < i + length cs \<and> trim (cs ! (j - i)) = name)"
  using assms
proof (induction cs arbitrary: i idx)
  case Nil
  then show ?case by simp
next
  case (Cons c cs)
  let ?idx' = "if trim c \<noteq> [] then idx(trim c \<mapsto> i, toLowerCase (trim c) \<mapsto> i) else idx"
  from Cons.prems have "indexHeader_from (Suc i) cs ?idx' name = Some j" by (simp add: Let_def)
  from Cons.IH[OF this Cons.prems(2)]
  consider "?idx' name = Some j" | "Suc i \<le> j \<and> j < Suc i + length cs \<and> trim (cs ! (j - Suc i)) = name"
    by blast
  then show ?case
  proof cases
    case 1
    have low: "toLowerCase (trim c) \<noteq> name" using Cons.prems(2) by (rule toLowerCase_neq)
    show ?thesis
    proof (cases "trim c = name")
      case True
      then show ?thesis using 1 low by (auto split: if_splits)
    next
      case False
      then show ?thesis using 1 low by (auto split: if_splits)
    qed
  next
    case 2
    then have "j - i = Suc (j - Suc i)" by arith
    then have "(c # cs) ! (j - i) = cs ! (j - Suc i)" by simp
    then show ?thesis using 2 by auto
  qed
qed

lemma indexHeader_Some:
  assumes "indexHeader hdr name = Some j" "\<exists>c\<in>set name. is_upper c"
  shows "j < length hdr \<and> trim (hdr ! j) = name"
  using indexHeader_from_Some[of 0 hdr Map.empty name j] assms by (simp add: indexHeader_def)

lemma indexHeader_from_keeps:
  "idx name \<noteq> None \<Longrightarrow> indexHeader_from i cs idx name \<noteq> None"
  by (induction cs arbitrary: i idx) (auto simp: Let_def)

lemma indexHeader_from_present:
  assumes "j < length cs" "trim (cs ! j) = name" "name \<noteq> []"
  shows "indexHeader_from i cs idx name \<noteq> None"
  using assms
proof (induction cs arbitrary: i idx j)
  case Nil
  then show ?case by simp
next
  case (Cons c cs)
  show ?case
  proof (cases j)
    case 0
    then have "trim c = name" using Cons.prems by simp
    then show ?thesis using Cons.prems(3)
      by (simp add: Let_def indexHeader_from_keeps)
  next
    case (Suc j')
    then show ?thesis using Cons.prems Cons.IH[of j'] by (simp add: Let_def)
  qed
qed

lemma indexHeader_from_pad:
  "indexHeader_from i (cs @ replicate k []) idx = indexHeader_from i cs idx"
proof (induction cs arbitrary: i idx)
  case Nil
  show ?case by (induction k arbitrary: i) (simp_all add: Let_def)
next
  case (Cons c cs)
  then show ?case by (simp add: Let_def)
qed

lemma indexHeader_pad [simp]: "indexHeader (pad_row n r) = indexHeader r"
  by (simp add: indexHeader_def pad_row_def indexHeader_from_pad)

lemma cell_pad [simp]: "cell (pad_row n r) c = cell r c"
  by (auto simp: cell_def pad_row_def nth_append)

lemma cell_opt_pad [simp]: "cell_opt (pad_row n r) c = cell_opt r c"
  by (simp add: cell_opt_def split: option.split)

subsection \<open>Headers after ensureSheets\<close>

lemma cell_nth: "c < length r \<Longrightarrow> cell r c = r ! c"
  by (simp add: cell_def)

lemma pad_row_nth: "i < length (pad_row n r) \<Longrightarrow> pad_row n r ! i = cell r i"
  by (auto simp: pad_row_def cell_def nth_append)

lemma ensureHeaderRow_shape:
  assumes "\<forall>h\<in>set hs. trim h = h"
  shows "ensureHeaderRow sh hs \<noteq> []"
    and "tl (ensureHeaderRow sh hs) = tl sh"
    and "\<forall>i<length hs. trim (cell (first_row (ensureHeaderRow sh hs)) i) = hs ! i"
proof -
  let ?m = "max (getLastColumn sh) (length hs)"
  let ?existing = "map trim (pad_row ?m (first_row sh))"
  let ?needs = "list_ex (\<lambda>i. ?existing ! i \<noteq> hs ! i) [0..<length hs]"
  show "ensureHeaderRow sh hs \<noteq> []"
    by (auto simp: ensureHeaderRow_def Let_def)
  show "tl (ensureHeaderRow sh hs) = tl sh"
    by (simp add: ensureHeaderRow_def Let_def)
  show "\<forall>i<length hs. trim (cell (first_row (ensureHeaderRow sh hs)) i) = hs ! i"
  proof (cases "length sh = 0 \<or> ?needs")
    case True
    then have "first_row (ensureHeaderRow sh hs) = hs @ drop (length hs) (first_row sh)"
      by (simp add: ensureHeaderRow_def Let_def first_row_def)
    then show ?thesis using assms by (simp add: cell_def nth_append)
  next
    case False
    then have same: "ensureHeaderRow sh hs = sh"
      by (simp add: ensureHeaderRow_def Let_def)
    have len: "length hs \<le> length (pad_row ?m (first_row sh))"
      by (simp add: pad_row_def)
    show ?thesis
    proof (intro allI impI)
      fix i assume i: "i < length hs"
      with False have "?existing ! i = hs ! i" by (auto simp: list_ex_iff)
      moreover have "?existing ! i = trim (cell (first_row sh) i)"
        using i len by (simp add: pad_row_nth)
      ultimately show "trim (cell (first_row (ensureHeaderRow sh hs)) i) = hs ! i"
        by (simp add: same)
    qed
  qed
qed

lemma header_present:
  assumes "\<forall>i<length hs. trim (cell r i) = hs ! i" "h \<in> set hs" "h \<noteq> []"
  shows "indexHeader r h \<noteq> None"
proof -
  from assms(2) obtain i where i: "i < length hs" "hs ! i = h" by (auto simp: in_set_conv_nth)
  then have t: "trim (cell r i) = h" using assms(1) by simp
  have "i < length r"
  proof (rule ccontr)
    assume "\<not> i < length r"
    then have "cell r i = []" by (simp add: cell_def)
    with t assms(3) show False by simp
  qed
  then have "trim (r ! i) = h" using t by (simp add: cell_nth)
  with \<open>i < length r\<close> show ?thesis
    unfolding indexHeader_def using assms(3) by (intro indexHeader_from_present[of i])
qed

lemma headers_shortcuts_trimmed: "\<forall>h\<in>set HEADERS_SHORTCUTS. trim h = h"
  by (simp add: HEADERS_SHORTCUTS_def trim_def is_ws_def)

lemma headers_favorites_trimmed: "\<forall>h\<in>set HEADERS_FAVORITES. trim h = h"
  by (simp add: HEADERS_FAVORITES_def trim_def is_ws_def)

lemma upper_names:
  "\<exists>c\<in>set ''ID''. is_upper c" "\<exists>c\<in>set ''Snippet Name''. is_upper c"
  "\<exists>c\<in>set ''Content''. is_upper c" "\<exists>c\<in>set ''Application''. is_upper c"
  "\<exists>c\<in>set ''Description''. is_upper c" "\<exists>c\<in>set ''Language''. is_upper c"
  "\<exists>c\<in>set ''Tags''. is_upper c" "\<exists>c\<in>set ''UpdatedAt''. is_upper c"
  "\<exists>c\<in>set ''UserEmail''. is_upper c" "\<exists>c\<in>set ''CreatedAt''. is_upper c"
  by (simp_all add: is_upper_def upper_letters_def)

lemma col_index_Some:
  assumes "indexHeader r name \<noteq> None" "\<exists>c\<in>set name. is_upper c"
  shows "col_index (indexHeader r) name < length r \<and>
         trim (r ! col_index (indexHeader r) name) = name \<and>
         indexHeader r name = Some (col_index (indexHeader r) name)"
proof -
  from assms(1) obtain j where j: "indexHeader r name = Some j" by auto
  with indexHeader_Some[OF j assms(2)] show ?thesis by (simp add: col_index_def)
qed

lemma colmap_Inr:
  assumes "getShortcutsHeaderAndColMap sh = Inr (header, col)"
  shows "header = pad_row (getLastColumn sh) (first_row sh)" and "cols_ok (first_row sh) col"
proof -
  let ?r = "first_row sh"
  from assms have none: "filter (\<lambda>h. indexHeader ?r h = None) HEADERS_SHORTCUTS = []"
    and hdr: "header = pad_row (getLastColumn sh) ?r"
    and col: "col = \<lparr>col_id = col_index (indexHeader ?r) ''ID'',
                    col_key = col_index (indexHeader ?r) ''Snippet Name'',
                    col_expansion = col_index (indexHeader ?r) ''Content'',
                    col_application = col_index (indexHeader ?r) ''Application'',
                    col_description = col_index (indexHeader ?r) ''Description'',
                    col_language = col_index (indexHeader ?r) ''Language'',
                    col_tags = col_index (indexHeader ?r) ''Tags'',
                    col_updatedAt = col_index (indexHeader ?r) ''UpdatedAt''\<rparr>"
    by (auto simp: getShortcutsHeaderAndColMap_def Let_def split: if_splits)
  show "header = pad_row (getLastColumn sh) (first_row sh)" by (rule hdr)
  from none have pres: "\<forall>h\<in>set HEADERS_SHORTCUTS. indexHeader ?r h \<noteq> None"
    by (simp add: filter_empty_conv)
  have k: "indexHeader ?r ''Snippet Name'' \<noteq> None" and e: "indexHeader ?r ''Content'' \<noteq> None"
    and a: "indexHeader ?r ''Application'' \<noteq> None" and d: "indexHeader ?r ''Description'' \<noteq> None"
    and l: "indexHeader ?r ''Language'' \<noteq> None" and t: "indexHeader ?r ''Tags'' \<noteq> None"
    and u: "indexHeader ?r ''UpdatedAt'' \<noteq> None"
    using pres by (simp_all add: HEADERS_SHORTCUTS_def)
  note K = col_index_Some[OF k upper_names(2)]
  note E = col_index_Some[OF e upper_names(3)]
  note A = col_index_Some[OF a upper_names(4)]
  note D = col_index_Some[OF d upper_names(5)]
  note L = col_index_Some[OF l upper_names(6)]
  note T = col_index_Some[OF t upper_names(7)]
  note U = col_index_Some[OF u upper_names(8)]
  have ne: "col_index (indexHeader ?r) ''Content'' \<noteq> col_index (indexHeader ?r) ''Snippet Name''"
    "col_index (indexHeader ?r) ''Application'' \<noteq> col_index (indexHeader ?r) ''Snippet Name''"
    "col_index (indexHeader ?r) ''Description'' \<noteq> col_index (indexHeader ?r) ''Snippet Name''"
    "col_index (indexHeader ?r) ''Language'' \<noteq> col_index (indexHeader ?r) ''Snippet Name''"
    "col_index (indexHeader ?r) ''Tags'' \<noteq> col_index (indexHeader ?r) ''Snippet Name''"
    "col_index (indexHeader ?r) ''UpdatedAt'' \<noteq> col_index (indexHeader ?r) ''Snippet Name''"
    using K E A D L T U by auto
  show "cols_ok (first_row sh) col"
    unfolding cols_ok_def col using K E A D L T U ne by simp
qed

lemma colmap_same_header:
  assumes "getShortcutsHeaderAndColMap sh = Inr (header, col)" "first_row sh' = first_row sh"
  shows "getShortcutsHeaderAndColMap sh' = Inr (pad_row (getLastColumn sh') (first_row sh), col)"
  using assms by (auto simp: getShortcutsHeaderAndColMap_def Let_def split: if_splits)

lemma colmap_after_ensure:
  "\<exists>header col. getShortcutsHeaderAndColMap (ensureHeaderRow sh HEADERS_SHORTCUTS) = Inr (header, col)"
proof -
  let ?sh = "ensureHeaderRow sh HEADERS_SHORTCUTS"
  note shape = ensureHeaderRow_shape[OF headers_shortcuts_trimmed, of sh]
  have "\<forall>h\<in>set HEADERS_SHORTCUTS. indexHeader (first_row ?sh) h \<noteq> None"
  proof
    fix h assume h: "h \<in> set HEADERS_SHORTCUTS"
    then have "h \<noteq> []" by (auto simp: HEADERS_SHORTCUTS_def)
    with header_present[OF shape(3) h] show "indexHeader (first_row ?sh) h \<noteq> None" by simp
  qed
  then have "filter (\<lambda>h. indexHeader (first_row ?sh) h = None) HEADERS_SHORTCUTS = []"
    by (simp add: filter_empty_conv)
  then show ?thesis by (simp add: getShortcutsHeaderAndColMap_def Let_def)
qed

subsection \<open>Upsert\<close>

lemma getSheet_shortcuts:
  "getSheet w CFG_SHEET_SHORTCUTS =
     (case shortcuts_sheet w of None \<Rightarrow> Inl (MissingSheet CFG_SHEET_SHORTCUTS) | Some sh \<Rightarrow> Inr sh)"
  by (simp add: getSheet_def)

lemma getSheet_favorites:
  "getSheet w CFG_SHEET_FAVORITES =
     (case favorites_sheet w of None \<Rightarrow> Inl (MissingSheet CFG_SHEET_FAVORITES) | Some sh \<Rightarrow> Inr sh)"
  by (simp add: getSheet_def CFG_SHEET_FAVORITES_def CFG_SHEET_SHORTCUTS_def split: option.split)

lemma getColumnValues_eq: "getColumnValues sh c = map (\<lambda>r. trim (cell r c)) (tl sh)"
  by (cases sh) (auto simp: getColumnValues_def)

lemma trim_eq_trim: "trim (trim x) = trim k \<longleftrightarrow> trim x = trim k"
  by simp

lemma findAll_column:
  "findAllRowsByKey (getColumnValues sh c) key = rows_where 2 (\<lambda>r. trim (cell r c) = trim key) (tl sh)"
  by (simp add: findAllRowsByKey_def getColumnValues_eq rows_where_map)

lemma delete_matching:
  "deleteRows (sort_desc (findAllRowsByKey (getColumnValues (h # ds) c) key)) (h # ds) =
   h # filter (\<lambda>r. trim (cell r c) \<noteq> trim key) ds"
  by (simp add: findAll_column sort_desc_rows_where deleteRows_data_rows)

lemma js_set_inside: "i < length r \<Longrightarrow> js_set r i v = r[i := v]"
  by (simp add: js_set_def)

lemma build_row_key:
  assumes "cols_ok hdr col" "length hdr \<le> width"
  shows "cell (build_row width col key p nowIso) (col_key col) = key"
  using assms
  by (simp add: build_row_def cols_ok_def Let_def js_set_inside cell_def)

lemma ensureSheets_fields [simp]:
  "document_lock_free (ensureSheets w) = document_lock_free w"
  "script_lock_free (ensureSheets w) = script_lock_free w"
  "now_iso (ensureSheets w) = now_iso w"
  "user_email (ensureSheets w) = user_email w"
  "cache (ensureSheets w) = cache w"
  "cache_ver (ensureSheets w) = cache_ver w"
  by (simp_all add: ensureSheets_def)

lemma ensureSheets_shortcuts:
  "\<exists>hdr. shortcuts_sheet (ensureSheets w) = Some (hdr # data_rows (shortcuts_sheet w))"
proof -
  let ?sh = "case shortcuts_sheet w of None \<Rightarrow> [] | Some sh \<Rightarrow> sh"
  note shape = ensureHeaderRow_shape[OF headers_shortcuts_trimmed, of ?sh]
  have "tl ?sh = data_rows (shortcuts_sheet w)"
    by (simp add: data_rows_def split: option.split)
  with shape(1,2) show ?thesis
    by (cases "ensureHeaderRow ?sh HEADERS_SHORTCUTS") (auto simp: ensureSheets_def)
qed

lemma validate_ok_Some: "ok (validateShortcutPayload pl) \<Longrightarrow> \<exists>p. pl = Some p"
  by (cases pl) (auto simp: validateShortcutPayload_def failure_def)

lemma length_pad_row: "length r \<le> length (pad_row n r)"
  by (simp add: pad_row_def)

lemma upsert_run:
  assumes "document_lock_free w" "ok (validateShortcutPayload (Some p))"
  shows "\<exists>hdr header col.
           shortcuts_sheet (ensureSheets w) = Some (hdr # data_rows (shortcuts_sheet w)) \<and>
           getShortcutsHeaderAndColMap (hdr # data_rows (shortcuts_sheet w)) = Inr (header, col) \<and>
           upsertShortcut w (Some p) =
             (Inr \<lparr>ok = True,
                   action = Some (if filter (\<lambda>r. trim (cell r (col_key col)) = trim (js_str (p_key p)))
                                       (data_rows (shortcuts_sheet w)) \<noteq> []
                                  then ''updated'' else ''created''),
                   message = Some ((if filter (\<lambda>r. trim (cell r (col_key col)) = trim (js_str (p_key p)))
                                       (data_rows (shortcuts_sheet w)) \<noteq> []
                                    then ''Updated shortcut: '' else ''Created shortcut: '')
                                   @ trim (js_str (p_key p)))\<rparr>,
              invalidateShortcutsCache (bumpCacheVersion ((ensureSheets w)
                \<lparr>shortcuts_sheet :=
                   Some (hdr # filter (\<lambda>r. trim (cell r (col_key col)) \<noteq> trim (js_str (p_key p)))
                                 (data_rows (shortcuts_sheet w))
                         @ [build_row (length header) col (trim (js_str (p_key p))) p (now_iso w)])\<rparr>)))"
proof -
  let ?ds = "data_rows (shortcuts_sheet w)"
  let ?k = "trim (js_str (p_key p))"
  from ensureSheets_shortcuts obtain hdr where sh: "shortcuts_sheet (ensureSheets w) = Some (hdr # ?ds)"
    by blast
  have "\<exists>header col. getShortcutsHeaderAndColMap (hdr # ?ds) = Inr (header, col)"
    using colmap_after_ensure[of "case shortcuts_sheet w of None \<Rightarrow> [] | Some sh \<Rightarrow> sh"] sh
    by (simp add: ensureSheets_def)
  then obtain header col where cm: "getShortcutsHeaderAndColMap (hdr # ?ds) = Inr (header, col)"
    by blast
  let ?P = "\<lambda>r. trim (cell r (col_key col)) = ?k"
  have find: "findAllRowsByKey (getColumnValues (hdr # ?ds) (col_key col)) ?k = rows_where 2 ?P ?ds"
    by (simp add: findAll_column)
  have pos: "(0 < length (rows_where 2 ?P ?ds)) = (filter ?P ?ds \<noteq> [])"
    by (simp add: length_rows_where)
  have del: "deleteRows (sort_desc (rows_where 2 ?P ?ds)) (hdr # ?ds) =
             hdr # filter (\<lambda>r. \<not> ?P r) ?ds"
    by (simp add: sort_desc_rows_where deleteRows_data_rows)
  have keep: "filter ?P ?ds = [] \<Longrightarrow> filter (\<lambda>r. \<not> ?P r) ?ds = ?ds"
    by (simp add: filter_empty_conv)
  have "upsertShortcut w (Some p) =
             (Inr \<lparr>ok = True,
                   action = Some (if filter ?P ?ds \<noteq> [] then ''updated'' else ''created''),
                   message = Some ((if filter ?P ?ds \<noteq> []
                                    then ''Updated shortcut: '' else ''Created shortcut: '') @ ?k)\<rparr>,
              invalidateShortcutsCache (bumpCacheVersion ((ensureSheets w)
                \<lparr>shortcuts_sheet :=
                   Some (hdr # filter (\<lambda>r. \<not> ?P r) ?ds
                         @ [build_row (length header) col ?k p (now_iso w)])\<rparr>)))"
    using assms keep
    by (simp add: upsertShortcut_def Let_def getSheet_shortcuts sh cm find rows_where_empty_iff
        del appendRow_def)
  with sh cm show ?thesis by blast
qed

lemma invalidate_bump_fields [simp]:
  "shortcuts_sheet (invalidateShortcutsCache w) = shortcuts_sheet w"
  "favorites_sheet (invalidateShortcutsCache w) = favorites_sheet w"
  "shortcuts_sheet (bumpCacheVersion w) = shortcuts_sheet w"
  "favorites_sheet (bumpCacheVersion w) = favorites_sheet w"
  by (simp_all add: invalidateShortcutsCache_def bumpCacheVersion_def)

lemma upsert_ok_cases:
  assumes "upsertShortcut w pl = (Inr res, w')" "ok res"
  shows "document_lock_free w \<and> ok (validateShortcutPayload pl)"
proof -
  have lock: "document_lock_free w"
  proof (rule ccontr)
    assume "\<not> document_lock_free w"
    then have "fst (upsertShortcut w pl) = Inl LockTimeout"
      by (simp add: upsertShortcut_def Let_def)
    with assms(1) show False by simp
  qed
  have "ok (validateShortcutPayload pl)"
  proof (rule ccontr)
    assume "\<not> ok (validateShortcutPayload pl)"
    then have "fst (upsertShortcut w pl) = Inr (validateShortcutPayload pl)"
      using lock by (simp add: upsertShortcut_def Let_def)
    with assms \<open>\<not> ok (validateShortcutPayload pl)\<close> show False by simp
  qed
  with lock show ?thesis by simp
qed

text \<open>
  Claim C3. When \<^verbatim>\<open>upsertShortcut(payload)\<close> returns \<^verbatim>\<open>ok\<close>, the data rows of the
  Shortcuts sheet are the former rows whose key cell, trimmed, differs from the
  trimmed key of the payload, followed by one appended row; that appended row is the
  only row whose key cell, trimmed, equals the key, whatever the number of such rows
  before; the action is \<^verbatim>\<open>updated\<close> when a matching row existed before and
  \<^verbatim>\<open>created\<close> otherwise. The key column is the one the header lookup returns,
  before and after the call.
\<close>

theorem upsertShortcut_single_row:
  assumes "upsertShortcut w pl = (Inr res, w')" "ok res"
  shows "\<exists>p c r. pl = Some p \<and>
           key_col_of (shortcuts_sheet (ensureSheets w)) = Some c \<and>
           key_col_of (shortcuts_sheet w') = Some c \<and>
           data_rows (shortcuts_sheet w') =
             filter (\<lambda>x. trim (cell x c) \<noteq> trim (js_str (p_key p))) (data_rows (shortcuts_sheet w))
             @ [r] \<and>
           rows_for_key c (shortcuts_sheet w') (trim (js_str (p_key p))) = [r] \<and>
           action res = Some (if rows_for_key c (shortcuts_sheet w) (trim (js_str (p_key p))) = []
                              then ''created'' else ''updated'')"
proof -
  from upsert_ok_cases[OF assms] have lock: "document_lock_free w"
    and v: "ok (validateShortcutPayload pl)" by simp_all
  from validate_ok_Some[OF v] obtain p where p: "pl = Some p" by blast
  let ?ds = "data_rows (shortcuts_sheet w)"
  let ?k = "trim (js_str (p_key p))"
  from upsert_run[OF lock v[unfolded p]] obtain hdr header col where
    sh: "shortcuts_sheet (ensureSheets w) = Some (hdr # ?ds)"
    and cm: "getShortcutsHeaderAndColMap (hdr # ?ds) = Inr (header, col)"
    and run: "upsertShortcut w (Some p) =
             (Inr \<lparr>ok = True,
                   action = Some (if filter (\<lambda>r. trim (cell r (col_key col)) = ?k) ?ds \<noteq> []
                                  then ''updated'' else ''created''),
                   message = Some ((if filter (\<lambda>r. trim (cell r (col_key col)) = ?k) ?ds \<noteq> []
                                    then ''Updated shortcut: '' else ''Created shortcut: '') @ ?k)\<rparr>,
              invalidateShortcutsCache (bumpCacheVersion ((ensureSheets w)
                \<lparr>shortcuts_sheet :=
                   Some (hdr # filter (\<lambda>r. trim (cell r (col_key col)) \<noteq> ?k) ?ds
                         @ [build_row (length header) col ?k p (now_iso w)])\<rparr>)))"
    by blast
  let ?c = "col_key col"
  let ?r = "build_row (length header) col ?k p (now_iso w)"
  let ?keep = "filter (\<lambda>r. trim (cell r ?c) \<noteq> ?k) ?ds"
  from run assms(1) p have res: "action res = Some (if filter (\<lambda>r. trim (cell r ?c) = ?k) ?ds \<noteq> []
                                  then ''updated'' else ''created'')"
    and w': "shortcuts_sheet w' = Some (hdr # ?keep @ [?r])"
    by auto
  from colmap_Inr[OF cm] have hd: "header = pad_row (getLastColumn (hdr # ?ds)) hdr"
    and ok: "cols_ok hdr col" by (simp_all add: first_row_def)
  have "length hdr \<le> length header" unfolding hd by (rule length_pad_row)
  from build_row_key[OF ok this] have cellr: "cell ?r ?c = ?k" .
  have kc: "key_col_of (shortcuts_sheet (ensureSheets w)) = Some ?c"
    by (simp add: key_col_of_def sh cm)
  have "first_row (hdr # ?keep @ [?r]) = first_row (hdr # ?ds)" by (simp add: first_row_def)
  from colmap_same_header[OF cm this]
  have kc': "key_col_of (shortcuts_sheet w') = Some ?c"
    by (simp add: key_col_of_def w')
  have rows: "data_rows (shortcuts_sheet w') = ?keep @ [?r]"
    by (simp add: data_rows_def w')
  have one: "rows_for_key ?c (shortcuts_sheet w') ?k = [?r]"
    unfolding rows_for_key_def rows by (simp add: cellr)
  have act: "action res = Some (if rows_for_key ?c (shortcuts_sheet w) ?k = []
                              then ''created'' else ''updated'')"
    using res by (simp add: rows_for_key_def)
  from p kc kc' rows one act show ?thesis by blast
qed

lemma ensureHeaderRow_canonical:
  assumes "\<forall>h\<in>set hs. trim h = h"
  shows "ensureHeaderRow (hs # ds) hs = hs # ds"
proof -
  let ?m = "max (getLastColumn (hs # ds)) (length hs)"
  have "\<forall>i<length hs. map trim (pad_row ?m hs) ! i = hs ! i"
    using assms by (simp add: pad_row_def nth_append)
  then have "\<not> list_ex (\<lambda>i. map trim (pad_row ?m (first_row (hs # ds))) ! i \<noteq> hs ! i) [0..<length hs]"
    by (simp add: list_ex_iff first_row_def)
  then show ?thesis by (simp add: ensureHeaderRow_def Let_def)
qed

lemma ensureSheets_canonical:
  assumes "shortcuts_sheet w = Some (HEADERS_SHORTCUTS # ds)"
    "favorites_sheet w = Some (HEADERS_FAVORITES # fs)"
  shows "ensureSheets w = w"
  using assms
  by (simp add: ensureSheets_def ensureHeaderRow_canonical headers_shortcuts_trimmed
      headers_favorites_trimmed)

lemma index_shortcut_headers:
  "indexHeader HEADERS_SHORTCUTS ''ID'' = Some (col_id canonical_cols)"
  "indexHeader HEADERS_SHORTCUTS ''Snippet Name'' = Some (col_key canonical_cols)"
  "indexHeader HEADERS_SHORTCUTS ''Content'' = Some (col_expansion canonical_cols)"
  "indexHeader HEADERS_SHORTCUTS ''Application'' = Some (col_application canonical_cols)"
  "indexHeader HEADERS_SHORTCUTS ''Description'' = Some (col_description canonical_cols)"
  "indexHeader HEADERS_SHORTCUTS ''Language'' = Some (col_language canonical_cols)"
  "indexHeader HEADERS_SHORTCUTS ''Tags'' = Some (col_tags canonical_cols)"
  "indexHeader HEADERS_SHORTCUTS ''UpdatedAt'' = Some (col_updatedAt canonical_cols)"
  by code_simp+

lemma index_favorite_headers:
  "indexHeader HEADERS_FAVORITES ''UserEmail'' = Some 0"
  "indexHeader HEADERS_FAVORITES ''Snippet Name'' = Some 1"
  "indexHeader HEADERS_FAVORITES ''CreatedAt'' = Some 2"
  by code_simp+

lemma colmap_canonical:
  "getShortcutsHeaderAndColMap (HEADERS_SHORTCUTS # ds) =
     Inr (pad_row (getLastColumn (HEADERS_SHORTCUTS # ds)) HEADERS_SHORTCUTS, canonical_cols)"
proof -
  have "\<forall>h\<in>set HEADERS_SHORTCUTS. indexHeader HEADERS_SHORTCUTS h \<noteq> None"
  proof
    fix h assume h: "h \<in> set HEADERS_SHORTCUTS"
    have cells: "\<forall>i<length HEADERS_SHORTCUTS. trim (cell HEADERS_SHORTCUTS i) = HEADERS_SHORTCUTS ! i"
      using headers_shortcuts_trimmed by (auto simp: cell_def)
    have "h \<noteq> []" using h by (auto simp: HEADERS_SHORTCUTS_def)
    from header_present[OF cells h this] show "indexHeader HEADERS_SHORTCUTS h \<noteq> None" .
  qed
  then have "filter (\<lambda>h. indexHeader HEADERS_SHORTCUTS h = None) HEADERS_SHORTCUTS = []"
    by (simp add: filter_empty_conv)
  then show ?thesis
    by (simp add: getShortcutsHeaderAndColMap_def Let_def first_row_def col_index_def
        index_shortcut_headers)
qed

lemma canonical_key_col: "col_key canonical_cols = 1"
  by (simp add: canonical_cols_def)

lemma upsert_canonical:
  assumes "document_lock_free w" "ok (validateShortcutPayload (Some p))"
    "shortcuts_sheet w = Some (HEADERS_SHORTCUTS # ds)"
    "favorites_sheet w = Some (HEADERS_FAVORITES # fs)"
  shows "upsertShortcut w (Some p) =
           (Inr \<lparr>ok = True,
                 action = Some (if filter (\<lambda>r. trim (cell r 1) = trim (js_str (p_key p))) ds \<noteq> []
                                then ''updated'' else ''created''),
                 message = Some ((if filter (\<lambda>r. trim (cell r 1) = trim (js_str (p_key p))) ds \<noteq> []
                                  then ''Updated shortcut: '' else ''Created shortcut: '')
                                 @ trim (js_str (p_key p)))\<rparr>,
            invalidateShortcutsCache (bumpCacheVersion (w
              \<lparr>shortcuts_sheet :=
                 Some (HEADERS_SHORTCUTS #
                       filter (\<lambda>r. trim (cell r 1) \<noteq> trim (js_str (p_key p))) ds
                       @ [build_row (length (pad_row (getLastColumn (HEADERS_SHORTCUTS # ds))
                                               HEADERS_SHORTCUTS))
                            canonical_cols (trim (js_str (p_key p))) p (now_iso w)])\<rparr>)))"
proof -
  have e: "ensureSheets w = w" using assms(3,4) by (rule ensureSheets_canonical)
  have d: "data_rows (shortcuts_sheet w) = ds" by (simp add: data_rows_def assms(3))
  from upsert_run[OF assms(1,2), unfolded e d] obtain hdr header col where
    1: "Some (HEADERS_SHORTCUTS # ds) = Some (hdr # ds)"
    and 2: "getShortcutsHeaderAndColMap (hdr # ds) = Inr (header, col)"
    and 3: "upsertShortcut w (Some p) =
             (Inr \<lparr>ok = True,
                   action = Some (if filter (\<lambda>r. trim (cell r (col_key col)) = trim (js_str (p_key p))) ds \<noteq> []
                                  then ''updated'' else ''created''),
                   message = Some ((if filter (\<lambda>r. trim (cell r (col_key col)) = trim (js_str (p_key p))) ds \<noteq> []
                                    then ''Updated shortcut: '' else ''Created shortcut: '')
                                   @ trim (js_str (p_key p)))\<rparr>,
              invalidateShortcutsCache (bumpCacheVersion (w
                \<lparr>shortcuts_sheet :=
                   Some (hdr # filter (\<lambda>r. trim (cell r (col_key col)) \<noteq> trim (js_str (p_key p))) ds
                         @ [build_row (length header) col (trim (js_str (p_key p))) p (now_iso w)])\<rparr>)))"
    unfolding assms(3) by blast
  from 1 have h: "hdr = HEADERS_SHORTCUTS" by simp
  from 2 have hc: "header = pad_row (getLastColumn (HEADERS_SHORTCUTS # ds)) HEADERS_SHORTCUTS"
    "col = canonical_cols"
    unfolding h colmap_canonical by simp_all
  show ?thesis using 3 unfolding h hc canonical_key_col .
qed

lemma invalidate_bump_fresh:
  assumes "cache w = Map.empty" "cache_ver w = None"
  shows "invalidateShortcutsCache (bumpCacheVersion w) = w\<lparr>cache_ver := Some 3\<rparr>"
  using assms by (simp add: invalidateShortcutsCache_def bumpCacheVersion_def)

lemma demo_payload_valid: "ok (validateShortcutPayload (Some demo_payload))"
  by code_simp

lemma build_row_uncut:
  assumes "length (js_str (p_expansion p)) \<le> CFG_MAX_FIELD_LEN"
    "length (js_str (p_application p)) \<le> CFG_MAX_APP_LEN"
    "length (js_str (p_description p)) \<le> CFG_MAX_DESC_LEN"
    "length (js_str (p_language p)) \<le> CFG_MAX_LANGUAGE_LEN"
    "length (js_str (p_tags p)) \<le> CFG_MAX_TAGS_LEN"
  shows "build_row width col key p nowIso =
         js_set (js_set (js_set (js_set (js_set (js_set (js_set (replicate width [])
           (col_key col) key)
           (col_expansion col) (js_str (p_expansion p)))
           (col_application col) (js_str (p_application p)))
           (col_description col) (js_str (p_description p)))
           (col_language col) (js_str (p_language p)))
           (col_tags col) (js_str (p_tags p)))
           (col_updatedAt col) nowIso"
  using assms by (simp add: build_row_def Let_def)

lemma demo_build_row: "build_row 8 canonical_cols ''foo'' demo_payload ''t0'' = demo_new_row"
proof -
  have "build_row 8 canonical_cols ''foo'' demo_payload ''t0'' =
         js_set (js_set (js_set (js_set (js_set (js_set (js_set (replicate 8 [])
           (col_key canonical_cols) ''foo'')
           (col_expansion canonical_cols) (js_str (p_expansion demo_payload)))
           (col_application canonical_cols) (js_str (p_application demo_payload)))
           (col_description canonical_cols) (js_str (p_description demo_payload)))
           (col_language canonical_cols) (js_str (p_language demo_payload)))
           (col_tags canonical_cols) (js_str (p_tags demo_payload)))
           (col_updatedAt canonical_cols) ''t0''"
    by (rule build_row_uncut)
       (simp_all add: demo_payload_def js_str_def CFG_MAX_FIELD_LEN_def CFG_MAX_APP_LEN_def
          CFG_MAX_DESC_LEN_def CFG_MAX_LANGUAGE_LEN_def CFG_MAX_TAGS_LEN_def)
  also have "\<dots> = demo_new_row" by code_simp
  finally show ?thesis .
qed

lemma demo_upsert:
  "upsertShortcut demo_dup_world (Some demo_payload) =
     (Inr \<lparr>ok = True, action = Some ''updated'', message = Some ''Updated shortcut: foo''\<rparr>,
      demo_dup_world\<lparr>shortcuts_sheet := Some [HEADERS_SHORTCUTS, [[], ''bar'', ''two''], demo_new_row],
        cache_ver := Some 3\<rparr>)"
proof -
  have k: "trim (js_str (p_key demo_payload)) = ''foo''" by code_simp
  have f1: "(filter (\<lambda>r. trim (cell r 1) = ''foo'') demo_dup_rows \<noteq> []) = True"
    by code_simp
  have f2: "filter (\<lambda>r. trim (cell r 1) \<noteq> ''foo'') demo_dup_rows = [[[], ''bar'', ''two'']]"
    by code_simp
  have wd: "length (pad_row (getLastColumn (HEADERS_SHORTCUTS # demo_dup_rows)) HEADERS_SHORTCUTS) = 8"
    by code_simp
  have l: "document_lock_free demo_dup_world" and n: "now_iso demo_dup_world = ''t0''"
    and s: "shortcuts_sheet demo_dup_world = Some (HEADERS_SHORTCUTS # demo_dup_rows)"
    and f: "favorites_sheet demo_dup_world = Some (HEADERS_FAVORITES # [])"
    by (simp_all add: demo_dup_world_def demo_world_def)
  have c: "cache (demo_dup_world\<lparr>shortcuts_sheet := x\<rparr>) = Map.empty"
    "cache_ver (demo_dup_world\<lparr>shortcuts_sheet := x\<rparr>) = None" for x
    by (simp_all add: demo_dup_world_def demo_world_def)
  have "upsertShortcut demo_dup_world (Some demo_payload) =
     (Inr \<lparr>ok = True, action = Some ''updated'', message = Some (''Updated shortcut: '' @ ''foo'')\<rparr>,
      invalidateShortcutsCache (bumpCacheVersion (demo_dup_world\<lparr>shortcuts_sheet :=
          Some (HEADERS_SHORTCUTS # [[[], ''bar'', ''two'']] @ [demo_new_row])\<rparr>)))"
    using upsert_canonical[OF l demo_payload_valid s f]
    unfolding k f1 f2 n wd demo_build_row by (simp only: if_True)
  then show ?thesis
    by (simp only: invalidate_bump_fresh[OF c] append.simps)
qed

theorem upsertShortcut_single_row_witness:
  "upsertShortcut demo_dup_world (Some demo_payload) =
     (Inr \<lparr>ok = True, action = Some ''updated'', message = Some ''Updated shortcut: foo''\<rparr>,
      demo_dup_world\<lparr>shortcuts_sheet := Some [HEADERS_SHORTCUTS, [[], ''bar'', ''two''], demo_new_row],
        cache_ver := Some 3\<rparr>) \<and>
   length (rows_for_key 1 (shortcuts_sheet demo_dup_world) ''foo'') = 3 \<and>
   rows_for_key 1
     (shortcuts_sheet (demo_dup_world\<lparr>shortcuts_sheet :=
         Some [HEADERS_SHORTCUTS, [[], ''bar'', ''two''], demo_new_row], cache_ver := Some 3\<rparr>))
     ''foo'' = [demo_new_row]"
proof -
  let ?res = "\<lparr>ok = True, action = Some ''updated'', message = Some ''Updated shortcut: foo''\<rparr>"
  let ?sh' = "[HEADERS_SHORTCUTS, [[], ''bar'', ''two''], demo_new_row]"
  let ?w' = "demo_dup_world\<lparr>shortcuts_sheet := Some ?sh', cache_ver := Some 3\<rparr>"
  have okr: "ok ?res" by simp
  have k: "trim (js_str (p_key demo_payload)) = ''foo''" by code_simp
  from upsertShortcut_single_row[OF demo_upsert okr] obtain p c r where
    p: "Some demo_payload = Some p"
    and c: "key_col_of (shortcuts_sheet ?w') = Some c"
    and rows: "data_rows (shortcuts_sheet ?w') =
             filter (\<lambda>x. trim (cell x c) \<noteq> trim (js_str (p_key p)))
               (data_rows (shortcuts_sheet demo_dup_world)) @ [r]"
    and one: "rows_for_key c (shortcuts_sheet ?w') (trim (js_str (p_key p))) = [r]"
    by blast
  have "key_col_of (shortcuts_sheet ?w') = Some 1"
    by (simp add: key_col_of_def colmap_canonical canonical_key_col)
  with c have c1: "c = 1" by simp
  from p have pp: "p = demo_payload" by simp
  from rows have "last (data_rows (shortcuts_sheet ?w')) = r" by simp
  then have r: "r = demo_new_row" by (simp add: data_rows_def)
  have three: "length (rows_for_key 1 (shortcuts_sheet demo_dup_world) ''foo'') = 3"
  proof -
    have "length (filter (\<lambda>r. trim (cell r 1) = ''foo'') demo_dup_rows) = 3" by code_simp
    then show ?thesis by (simp add: rows_for_key_def data_rows_def demo_dup_world_def)
  qed
  from one show ?thesis unfolding c1 pp k r using demo_upsert three by simp
qed

subsection \<open>Rejected payloads\<close>

text \<open>
  Claim C6, as the code has it. A payload that fails \<^verbatim>\<open>validateShortcutPayload_\<close>
  is rejected after \<^verbatim>\<open>ensureSheets_()\<close> and after the document lock was awaited:
  with the lock acquired the validation failure is returned, without it the call
  raises. Either way no row is deleted or appended (the data rows of both sheets are
  those before the call; only the header rows may have been repaired by
  \<^verbatim>\<open>ensureSheets_\<close>) and the cache and its version are untouched.
\<close>

theorem upsertShortcut_rejects_invalid:
  assumes "\<not> ok (validateShortcutPayload pl)"
  shows "upsertShortcut w pl =
           (if document_lock_free w then Inr (validateShortcutPayload pl) else Inl LockTimeout,
            ensureSheets w) \<and>
         data_rows (shortcuts_sheet (ensureSheets w)) = data_rows (shortcuts_sheet w) \<and>
         data_rows (favorites_sheet (ensureSheets w)) = data_rows (favorites_sheet w) \<and>
         cache (ensureSheets w) = cache w \<and> cache_ver (ensureSheets w) = cache_ver w"
proof -
  have 1: "upsertShortcut w pl =
           (if document_lock_free w then Inr (validateShortcutPayload pl) else Inl LockTimeout,
            ensureSheets w)"
    using assms by (simp add: upsertShortcut_def Let_def)
  have 2: "data_rows (shortcuts_sheet (ensureSheets w)) = data_rows (shortcuts_sheet w)"
    using ensureSheets_shortcuts[of w] by (auto simp: data_rows_def)
  have 3: "data_rows (favorites_sheet (ensureSheets w)) = data_rows (favorites_sheet w)"
    using ensureHeaderRow_shape(2)[OF headers_favorites_trimmed]
    by (simp add: ensureSheets_def data_rows_def split: option.split)
  from 1 2 3 show ?thesis by simp
qed

theorem upsertShortcut_rejects_invalid_witness:
  "upsertShortcut demo_world None = (Inr (failure ''Missing payload.''), demo_world)"
proof -
  have inv: "\<not> ok (validateShortcutPayload None)"
    by (simp add: validateShortcutPayload_def failure_def)
  have e: "ensureSheets demo_world = demo_world"
    by (rule ensureSheets_canonical[of _ "tl (the (shortcuts_sheet demo_world))" "[]"])
       (simp_all add: demo_world_def)
  have l: "document_lock_free demo_world" by (simp add: demo_world_def)
  from upsertShortcut_rejects_invalid[OF inv, of demo_world] show ?thesis
    unfolding e by (simp add: l validateShortcutPayload_def)
qed

text \<open>
  Claim C6 as stated fails: with the document lock held elsewhere, the invalid (missing)
  payload is not answered with the validation failure; the call raises the lock
  timeout, because the lock is awaited before the payload is validated.
\<close>

theorem upsertShortcut_lock_before_validation:
  "\<not> ok (validateShortcutPayload None) \<and>
   fst (upsertShortcut (demo_world\<lparr>document_lock_free := False\<rparr>) None) = Inl LockTimeout \<and>
   fst (upsertShortcut (demo_world\<lparr>document_lock_free := False\<rparr>) None)
     \<noteq> Inr (validateShortcutPayload None)"
  by (simp add: upsertShortcut_def Let_def validateShortcutPayload_def failure_def)

subsection \<open>Delete\<close>

lemma getFavoritesColumnMap_pad [simp]:
  "getFavoritesColumnMap (pad_row n r) = getFavoritesColumnMap r"
  by (simp add: getFavoritesColumnMap_def)

lemma getDataValues_Cons:
  "getDataValues (h # ds) =
     pad_row (getLastColumn (h # ds)) h # map (pad_row (getLastColumn (h # ds))) ds"
  by (simp add: getDataValues_def)

lemma removeFavorite_run:
  assumes "favorites_sheet w = Some (fh # fds)" "trim k = k" "k \<noteq> []"
  shows "removeFavoriteForAllUsers w k =
           Inr (w\<lparr>favorites_sheet :=
                   Some (fh # filter (\<lambda>r. trim (cell_opt r (fcol_key (getFavoritesColumnMap fh))) \<noteq> k)
                                  fds)\<rparr>)"
proof (cases fds)
  case Nil
  then show ?thesis using assms
    by (simp add: removeFavoriteForAllUsers_def getSheet_favorites getDataValues_Cons)
next
  case (Cons r rs)
  let ?n = "getLastColumn (fh # fds)"
  let ?P = "\<lambda>r. trim (cell_opt r (fcol_key (getFavoritesColumnMap fh))) = k"
  have rows: "rows_where 2 ?P (map (pad_row ?n) fds) = rows_where 2 ?P fds"
    by (simp add: rows_where_map)
  have "removeFavoriteForAllUsers w k =
        Inr (w\<lparr>favorites_sheet := Some (deleteRows (rev (rows_where 2 ?P fds)) (fh # fds))\<rparr>)"
    using assms Cons rows[unfolded Cons]
    by (simp add: removeFavoriteForAllUsers_def getSheet_favorites getDataValues_Cons Let_def)
  then show ?thesis by (simp add: deleteRows_data_rows)
qed

lemma ensureSheets_favorites:
  "\<exists>fh c. favorites_sheet (ensureSheets w) = Some (fh # data_rows (favorites_sheet w)) \<and>
          fcol_key (getFavoritesColumnMap fh) = Some c"
proof -
  let ?sh = "case favorites_sheet w of None \<Rightarrow> [] | Some sh \<Rightarrow> sh"
  note shape = ensureHeaderRow_shape[OF headers_favorites_trimmed, of ?sh]
  have tl: "tl ?sh = data_rows (favorites_sheet w)"
    by (simp add: data_rows_def split: option.split)
  from shape(1) obtain fh rest where e: "ensureHeaderRow ?sh HEADERS_FAVORITES = fh # rest"
    by (cases "ensureHeaderRow ?sh HEADERS_FAVORITES") auto
  with shape(2) tl have rest: "rest = data_rows (favorites_sheet w)" by simp
  have "''Snippet Name'' \<in> set HEADERS_FAVORITES" by (simp add: HEADERS_FAVORITES_def)
  from header_present[OF shape(3) this] e
  have "indexHeader fh ''Snippet Name'' \<noteq> None" by (simp add: first_row_def)
  then obtain c where "fcol_key (getFavoritesColumnMap fh) = Some c"
    by (auto simp: getFavoritesColumnMap_def Let_def)
  with e rest show ?thesis by (auto simp: ensureSheets_def)
qed

lemma delete_run:
  assumes "document_lock_free w" "trim key \<noteq> []"
  shows "\<exists>hdr header col fh c.
           shortcuts_sheet (ensureSheets w) = Some (hdr # data_rows (shortcuts_sheet w)) \<and>
           favorites_sheet (ensureSheets w) = Some (fh # data_rows (favorites_sheet w)) \<and>
           getShortcutsHeaderAndColMap (hdr # data_rows (shortcuts_sheet w)) = Inr (header, col) \<and>
           fcol_key (getFavoritesColumnMap fh) = Some c \<and>
           deleteShortcut w key =
             (if filter (\<lambda>r. trim (cell r (col_key col)) = trim key) (data_rows (shortcuts_sheet w)) = []
              then (Inr (failure (''Shortcut not found: '' @ trim key)), ensureSheets w)
              else (Inr \<lparr>ok = True, action = None,
                         message = Some (''Deleted shortcut: '' @ trim key)\<rparr>,
                    invalidateShortcutsCache (bumpCacheVersion ((ensureSheets w)
                      \<lparr>shortcuts_sheet :=
                         Some (hdr # filter (\<lambda>r. trim (cell r (col_key col)) \<noteq> trim key)
                                       (data_rows (shortcuts_sheet w))),
                       favorites_sheet :=
                         Some (fh # filter (\<lambda>r. trim (cell r c) \<noteq> trim key)
                                      (data_rows (favorites_sheet w)))\<rparr>))))"
proof -
  let ?ds = "data_rows (shortcuts_sheet w)"
  let ?fds = "data_rows (favorites_sheet w)"
  let ?k = "trim key"
  from ensureSheets_shortcuts obtain hdr where sh: "shortcuts_sheet (ensureSheets w) = Some (hdr # ?ds)"
    by blast
  from ensureSheets_favorites obtain fh c where
    fsh: "favorites_sheet (ensureSheets w) = Some (fh # ?fds)"
    and fc: "fcol_key (getFavoritesColumnMap fh) = Some c" by blast
  have "\<exists>header col. getShortcutsHeaderAndColMap (hdr # ?ds) = Inr (header, col)"
    using colmap_after_ensure[of "case shortcuts_sheet w of None \<Rightarrow> [] | Some sh \<Rightarrow> sh"] sh
    by (simp add: ensureSheets_def)
  then obtain header col where cm: "getShortcutsHeaderAndColMap (hdr # ?ds) = Inr (header, col)"
    by blast
  let ?P = "\<lambda>r. trim (cell r (col_key col)) = ?k"
  let ?w2 = "(ensureSheets w)\<lparr>shortcuts_sheet := Some (hdr # filter (\<lambda>r. \<not> ?P r) ?ds)\<rparr>"
  have find: "findAllRowsByKey (getColumnValues (hdr # ?ds) (col_key col)) ?k = rows_where 2 ?P ?ds"
    by (simp add: findAll_column)
  have del: "deleteRows (sort_desc (rows_where 2 ?P ?ds)) (hdr # ?ds) =
             hdr # filter (\<lambda>r. \<not> ?P r) ?ds"
    by (simp add: sort_desc_rows_where deleteRows_data_rows)
  have "favorites_sheet ?w2 = Some (fh # ?fds)" using fsh by simp
  from removeFavorite_run[OF this, of ?k] assms(2) fc
  have rf: "removeFavoriteForAllUsers ?w2 ?k =
            Inr (?w2\<lparr>favorites_sheet := Some (fh # filter (\<lambda>r. trim (cell r c) \<noteq> ?k) ?fds)\<rparr>)"
    by (simp add: cell_opt_def)
  have "deleteShortcut w key =
             (if filter ?P ?ds = []
              then (Inr (failure (''Shortcut not found: '' @ ?k)), ensureSheets w)
              else (Inr \<lparr>ok = True, action = None, message = Some (''Deleted shortcut: '' @ ?k)\<rparr>,
                    invalidateShortcutsCache (bumpCacheVersion ((ensureSheets w)
                      \<lparr>shortcuts_sheet := Some (hdr # filter (\<lambda>r. \<not> ?P r) ?ds),
                       favorites_sheet :=
                         Some (fh # filter (\<lambda>r. trim (cell r c) \<noteq> ?k) ?fds)\<rparr>))))"
    using assms
    by (simp add: deleteShortcut_def Let_def getSheet_shortcuts sh cm find rows_where_empty_iff
        del rf)
  with sh fsh cm fc show ?thesis by blast
qed

lemma delete_canonical:
  assumes "document_lock_free w" "trim key \<noteq> []"
    "shortcuts_sheet w = Some (HEADERS_SHORTCUTS # ds)"
    "favorites_sheet w = Some (HEADERS_FAVORITES # fds)"
  shows "deleteShortcut w key =
           (if filter (\<lambda>r. trim (cell r 1) = trim key) ds = []
            then (Inr (failure (''Shortcut not found: '' @ trim key)), w)
            else (Inr \<lparr>ok = True, action = None, message = Some (''Deleted shortcut: '' @ trim key)\<rparr>,
                  invalidateShortcutsCache (bumpCacheVersion (w
                    \<lparr>shortcuts_sheet :=
                       Some (HEADERS_SHORTCUTS # filter (\<lambda>r. trim (cell r 1) \<noteq> trim key) ds),
                     favorites_sheet :=
                       Some (HEADERS_FAVORITES # filter (\<lambda>r. trim (cell r 1) \<noteq> trim key) fds)\<rparr>))))"
proof -
  have e: "ensureSheets w = w" using assms(3,4) by (rule ensureSheets_canonical)
  have d: "data_rows (shortcuts_sheet w) = ds" "data_rows (favorites_sheet w) = fds"
    by (simp_all add: data_rows_def assms(3,4))
  from delete_run[OF assms(1,2), unfolded e d] obtain hdr header col fh c where
    1: "shortcuts_sheet w = Some (hdr # ds)"
    and 2: "favorites_sheet w = Some (fh # fds)"
    and 3: "getShortcutsHeaderAndColMap (hdr # ds) = Inr (header, col)"
    and 4: "fcol_key (getFavoritesColumnMap fh) = Some c"
    and 5: "deleteShortcut w key =
             (if filter (\<lambda>r. trim (cell r (col_key col)) = trim key) ds = []
              then (Inr (failure (''Shortcut not found: '' @ trim key)), w)
              else (Inr \<lparr>ok = True, action = None,
                         message = Some (''Deleted shortcut: '' @ trim key)\<rparr>,
                    invalidateShortcutsCache (bumpCacheVersion (w
                      \<lparr>shortcuts_sheet :=
                         Some (hdr # filter (\<lambda>r. trim (cell r (col_key col)) \<noteq> trim key) ds),
                       favorites_sheet :=
                         Some (fh # filter (\<lambda>r. trim (cell r c) \<noteq> trim key) fds)\<rparr>))))"
    by blast
  from 1 assms(3) have h: "hdr = HEADERS_SHORTCUTS" by simp
  from 2 assms(4) have fh: "fh = HEADERS_FAVORITES" by simp
  from 3 have col: "col = canonical_cols" unfolding h colmap_canonical by simp
  from 4 have c: "c = 1"
    unfolding fh by (simp add: getFavoritesColumnMap_def index_favorite_headers)
  show ?thesis using 5 unfolding h fh col c canonical_key_col .
qed

lemma delete_ok_cases:
  assumes "deleteShortcut w key = (Inr res, w')" "ok res"
  shows "document_lock_free w \<and> trim key \<noteq> []"
proof -
  have lock: "document_lock_free w"
  proof (rule ccontr)
    assume "\<not> document_lock_free w"
    then have "fst (deleteShortcut w key) = Inl LockTimeout"
      by (simp add: deleteShortcut_def Let_def)
    with assms(1) show False by simp
  qed
  have "trim key \<noteq> []"
  proof
    assume "trim key = []"
    then have "fst (deleteShortcut w key) = Inr (failure ''Missing shortcut key.'')"
      using lock by (simp add: deleteShortcut_def Let_def)
    with assms show False by (simp add: failure_def)
  qed
  with lock show ?thesis by simp
qed

text \<open>
  Claim C10. When \<^verbatim>\<open>deleteShortcut(key)\<close> returns \<^verbatim>\<open>ok\<close>, the data rows of the
  Favorites sheet are the former rows whose key cell, trimmed, differs from the
  trimmed key, whoever the user of the row is: no favorite row for that key is left.
  The key column is the one \<^verbatim>\<open>getFavoritesColumnMap_\<close> finds in the header.
\<close>

theorem deleteShortcut_cascades:
  assumes "deleteShortcut w key = (Inr res, w')" "ok res"
  shows "\<exists>c. fav_key_col_of (favorites_sheet w') = Some c \<and>
             data_rows (favorites_sheet w') =
               filter (\<lambda>r. trim (cell r c) \<noteq> trim key) (data_rows (favorites_sheet w)) \<and>
             rows_for_key c (favorites_sheet w') (trim key) = []"
proof -
  from delete_ok_cases[OF assms] have lock: "document_lock_free w" and k: "trim key \<noteq> []"
    by simp_all
  let ?ds = "data_rows (shortcuts_sheet w)"
  let ?fds = "data_rows (favorites_sheet w)"
  from delete_run[OF lock k] obtain hdr header col fh c where all:
    "shortcuts_sheet (ensureSheets w) = Some (hdr # ?ds) \<and>
     favorites_sheet (ensureSheets w) = Some (fh # ?fds) \<and>
     getShortcutsHeaderAndColMap (hdr # ?ds) = Inr (header, col) \<and>
     fcol_key (getFavoritesColumnMap fh) = Some c \<and>
     deleteShortcut w key =
             (if filter (\<lambda>r. trim (cell r (col_key col)) = trim key) ?ds = []
              then (Inr (failure (''Shortcut not found: '' @ trim key)), ensureSheets w)
              else (Inr \<lparr>ok = True, action = None,
                         message = Some (''Deleted shortcut: '' @ trim key)\<rparr>,
                    invalidateShortcutsCache (bumpCacheVersion ((ensureSheets w)
                      \<lparr>shortcuts_sheet :=
                         Some (hdr # filter (\<lambda>r. trim (cell r (col_key col)) \<noteq> trim key) ?ds),
                       favorites_sheet :=
                         Some (fh # filter (\<lambda>r. trim (cell r c) \<noteq> trim key) ?fds)\<rparr>))))"
    by (elim exE) (erule that)
  then have fc: "fcol_key (getFavoritesColumnMap fh) = Some c"
    and run: "deleteShortcut w key =
             (if filter (\<lambda>r. trim (cell r (col_key col)) = trim key) ?ds = []
              then (Inr (failure (''Shortcut not found: '' @ trim key)), ensureSheets w)
              else (Inr \<lparr>ok = True, action = None,
                         message = Some (''Deleted shortcut: '' @ trim key)\<rparr>,
                    invalidateShortcutsCache (bumpCacheVersion ((ensureSheets w)
                      \<lparr>shortcuts_sheet :=
                         Some (hdr # filter (\<lambda>r. trim (cell r (col_key col)) \<noteq> trim key) ?ds),
                       favorites_sheet :=
                         Some (fh # filter (\<lambda>r. trim (cell r c) \<noteq> trim key) ?fds)\<rparr>))))"
    by simp_all
  have found: "filter (\<lambda>r. trim (cell r (col_key col)) = trim key) ?ds \<noteq> []"
  proof
    assume "filter (\<lambda>r. trim (cell r (col_key col)) = trim key) ?ds = []"
    with run assms show False by (simp add: failure_def)
  qed
  with run assms(1) have fav: "favorites_sheet w' =
      Some (fh # filter (\<lambda>r. trim (cell r c) \<noteq> trim key) ?fds)"
    by auto
  have 1: "fav_key_col_of (favorites_sheet w') = Some c"
    by (simp add: fav_key_col_of_def fav first_row_def fc)
  have 2: "data_rows (favorites_sheet w') = filter (\<lambda>r. trim (cell r c) \<noteq> trim key) ?fds"
    by (simp add: data_rows_def fav)
  have 3: "rows_for_key c (favorites_sheet w') (trim key) = []"
    unfolding rows_for_key_def 2 by (simp add: filter_empty_conv)
  from 1 2 3 show ?thesis by blast
qed

lemma demo_fav_world_fields:
  "document_lock_free demo_fav_world"
  "shortcuts_sheet demo_fav_world = Some (HEADERS_SHORTCUTS # demo_dup_rows)"
  "favorites_sheet demo_fav_world = Some (HEADERS_FAVORITES # demo_fav_rows)"
  by (simp_all add: demo_fav_world_def demo_dup_world_def demo_world_def)

lemma demo_dup_world_fields:
  "document_lock_free demo_dup_world"
  "shortcuts_sheet demo_dup_world = Some (HEADERS_SHORTCUTS # demo_dup_rows)"
  "favorites_sheet demo_dup_world = Some (HEADERS_FAVORITES # [])"
  by (simp_all add: demo_dup_world_def demo_world_def)

theorem deleteShortcut_cascades_witness:
  "\<exists>res w'. deleteShortcut demo_fav_world ''foo'' = (Inr res, w') \<and> ok res \<and>
      data_rows (favorites_sheet w') = [[''ann@example.org'', ''bar'', ''t3'']] \<and>
      rows_for_key 1 (favorites_sheet w') ''foo'' = []"
proof -
  let ?res = "\<lparr>ok = True, action = None, message = Some (''Deleted shortcut: '' @ ''foo'')\<rparr>"
  let ?w' = "invalidateShortcutsCache (bumpCacheVersion (demo_fav_world
               \<lparr>shortcuts_sheet :=
                  Some (HEADERS_SHORTCUTS # filter (\<lambda>r. trim (cell r 1) \<noteq> ''foo'') demo_dup_rows),
                favorites_sheet :=
                  Some (HEADERS_FAVORITES # filter (\<lambda>r. trim (cell r 1) \<noteq> ''foo'') demo_fav_rows)\<rparr>))"
  have k: "trim ''foo'' = ''foo''" by code_simp
  then have k0: "trim ''foo'' \<noteq> []" by simp
  have f: "(filter (\<lambda>r. trim (cell r 1) = ''foo'') demo_dup_rows = []) = False" by code_simp
  have g: "filter (\<lambda>r. trim (cell r 1) \<noteq> ''foo'') demo_fav_rows =
           [[''ann@example.org'', ''bar'', ''t3'']]" by code_simp
  have run: "deleteShortcut demo_fav_world ''foo'' = (Inr ?res, ?w')"
    using delete_canonical[OF demo_fav_world_fields(1) k0 demo_fav_world_fields(2,3)]
    unfolding k f by (simp only: if_False)
  have okr: "ok ?res" by simp
  from deleteShortcut_cascades[OF run okr] obtain c where
    c: "fav_key_col_of (favorites_sheet ?w') = Some c"
    and rows: "data_rows (favorites_sheet ?w') =
               filter (\<lambda>r. trim (cell r c) \<noteq> trim ''foo'') (data_rows (favorites_sheet demo_fav_world))"
    and none: "rows_for_key c (favorites_sheet ?w') (trim ''foo'') = []"
    by blast
  have "fav_key_col_of (favorites_sheet ?w') = Some 1"
    by (simp add: fav_key_col_of_def first_row_def getFavoritesColumnMap_def index_favorite_headers)
  with c have c1: "c = 1" by simp
  have d: "data_rows (favorites_sheet demo_fav_world) = demo_fav_rows"
    by (simp add: data_rows_def demo_fav_world_fields)
  from rows have "data_rows (favorites_sheet ?w') = [[''ann@example.org'', ''bar'', ''t3'']]"
    unfolding c1 k d g .
  moreover from none have "rows_for_key 1 (favorites_sheet ?w') ''foo'' = []"
    unfolding c1 k .
  ultimately show ?thesis using run okr by blast
qed

subsection \<open>The result of a delete\<close>

text \<open>
  The rows are deleted in descending order of their numbers.
\<close>

lemma sort_desc_descending: "sorted (rev (sort_desc xs))"
  by (simp add: sort_desc_def)

text \<open>
  Claim C7, as the code has it. With the document lock acquired,
  \<^verbatim>\<open>deleteShortcut(key)\<close> returns the failure \<^verbatim>\<open>Missing shortcut key.\<close> for a blank
  key; for a key that no row matches it changes no data row and returns the failure
  \<^verbatim>\<open>{ok: false, message: 'Shortcut not found: k'}\<close>; otherwise it removes every row
  whose key cell, trimmed, equals the trimmed key and returns
  \<^verbatim>\<open>{ok: true, message: 'Deleted shortcut: k'}\<close>. The result carries no count of
  the removed rows.
\<close>

theorem deleteShortcut_outcomes:
  assumes "document_lock_free w"
  shows "(trim key = [] \<longrightarrow>
            deleteShortcut w key = (Inr (failure ''Missing shortcut key.''), ensureSheets w)) \<and>
         (trim key \<noteq> [] \<longrightarrow>
            (\<exists>c. key_col_of (shortcuts_sheet (ensureSheets w)) = Some c \<and>
               (rows_for_key c (shortcuts_sheet w) (trim key) = [] \<longrightarrow>
                  deleteShortcut w key =
                    (Inr (failure (''Shortcut not found: '' @ trim key)), ensureSheets w)) \<and>
               (rows_for_key c (shortcuts_sheet w) (trim key) \<noteq> [] \<longrightarrow>
                  (\<exists>w'. deleteShortcut w key =
                          (Inr \<lparr>ok = True, action = None,
                                message = Some (''Deleted shortcut: '' @ trim key)\<rparr>, w') \<and>
                        data_rows (shortcuts_sheet w') =
                          filter (\<lambda>r. trim (cell r c) \<noteq> trim key) (data_rows (shortcuts_sheet w)) \<and>
                        rows_for_key c (shortcuts_sheet w') (trim key) = []))))"
proof (intro conjI impI)
  assume "trim key = []"
  then show "deleteShortcut w key = (Inr (failure ''Missing shortcut key.''), ensureSheets w)"
    using assms by (simp add: deleteShortcut_def Let_def)
next
  assume k: "trim key \<noteq> []"
  let ?ds = "data_rows (shortcuts_sheet w)"
  let ?fds = "data_rows (favorites_sheet w)"
  from delete_run[OF assms k] obtain hdr header col fh c where all:
    "shortcuts_sheet (ensureSheets w) = Some (hdr # ?ds) \<and>
     favorites_sheet (ensureSheets w) = Some (fh # ?fds) \<and>
     getShortcutsHeaderAndColMap (hdr # ?ds) = Inr (header, col) \<and>
     fcol_key (getFavoritesColumnMap fh) = Some c \<and>
     deleteShortcut w key =
             (if filter (\<lambda>r. trim (cell r (col_key col)) = trim key) ?ds = []
              then (Inr (failure (''Shortcut not found: '' @ trim key)), ensureSheets w)
              else (Inr \<lparr>ok = True, action = None,
                         message = Some (''Deleted shortcut: '' @ trim key)\<rparr>,
                    invalidateShortcutsCache (bumpCacheVersion ((ensureSheets w)
                      \<lparr>shortcuts_sheet :=
                         Some (hdr # filter (\<lambda>r. trim (cell r (col_key col)) \<noteq> trim key) ?ds),
                       favorites_sheet :=
                         Some (fh # filter (\<lambda>r. trim (cell r c) \<noteq> trim key) ?fds)\<rparr>))))"
    by (elim exE) (erule that)
  then have sh: "shortcuts_sheet (ensureSheets w) = Some (hdr # ?ds)"
    and cm: "getShortcutsHeaderAndColMap (hdr # ?ds) = Inr (header, col)"
    and run: "deleteShortcut w key =
             (if filter (\<lambda>r. trim (cell r (col_key col)) = trim key) ?ds = []
              then (Inr (failure (''Shortcut not found: '' @ trim key)), ensureSheets w)
              else (Inr \<lparr>ok = True, action = None,
                         message = Some (''Deleted shortcut: '' @ trim key)\<rparr>,
                    invalidateShortcutsCache (bumpCacheVersion ((ensureSheets w)
                      \<lparr>shortcuts_sheet :=
                         Some (hdr # filter (\<lambda>r. trim (cell r (col_key col)) \<noteq> trim key) ?ds),
                       favorites_sheet :=
                         Some (fh # filter (\<lambda>r. trim (cell r c) \<noteq> trim key) ?fds)\<rparr>))))"
    by simp_all
  let ?c = "col_key col"
  have kc: "key_col_of (shortcuts_sheet (ensureSheets w)) = Some ?c"
    by (simp add: key_col_of_def sh cm)
  have none: "rows_for_key ?c (shortcuts_sheet w) (trim key) = [] \<longrightarrow>
                  deleteShortcut w key =
                    (Inr (failure (''Shortcut not found: '' @ trim key)), ensureSheets w)"
    using run by (simp add: rows_for_key_def)
  have some: "rows_for_key ?c (shortcuts_sheet w) (trim key) \<noteq> [] \<longrightarrow>
                  (\<exists>w'. deleteShortcut w key =
                          (Inr \<lparr>ok = True, action = None,
                                message = Some (''Deleted shortcut: '' @ trim key)\<rparr>, w') \<and>
                        data_rows (shortcuts_sheet w') =
                          filter (\<lambda>r. trim (cell r ?c) \<noteq> trim key) ?ds \<and>
                        rows_for_key ?c (shortcuts_sheet w') (trim key) = [])"
  proof
    let ?w' = "invalidateShortcutsCache (bumpCacheVersion ((ensureSheets w)
                      \<lparr>shortcuts_sheet :=
                         Some (hdr # filter (\<lambda>r. trim (cell r ?c) \<noteq> trim key) ?ds),
                       favorites_sheet :=
                         Some (fh # filter (\<lambda>r. trim (cell r c) \<noteq> trim key) ?fds)\<rparr>))"
    assume "rows_for_key ?c (shortcuts_sheet w) (trim key) \<noteq> []"
    then have "(filter (\<lambda>r. trim (cell r ?c) = trim key) ?ds = []) = False"
      by (simp add: rows_for_key_def)
    with run have r: "deleteShortcut w key =
         (Inr \<lparr>ok = True, action = None, message = Some (''Deleted shortcut: '' @ trim key)\<rparr>, ?w')"
      by (simp only: if_False)
    have d: "data_rows (shortcuts_sheet ?w') = filter (\<lambda>r. trim (cell r ?c) \<noteq> trim key) ?ds"
      by (simp add: data_rows_def)
    have "rows_for_key ?c (shortcuts_sheet ?w') (trim key) = []"
      unfolding rows_for_key_def d by (simp add: filter_empty_conv)
    with r d show "\<exists>w'. deleteShortcut w key =
                          (Inr \<lparr>ok = True, action = None,
                                message = Some (''Deleted shortcut: '' @ trim key)\<rparr>, w') \<and>
                        data_rows (shortcuts_sheet w') =
                          filter (\<lambda>r. trim (cell r ?c) \<noteq> trim key) ?ds \<and>
                        rows_for_key ?c (shortcuts_sheet w') (trim key) = []"
      by blast
  qed
  from kc none some
  show "\<exists>c. key_col_of (shortcuts_sheet (ensureSheets w)) = Some c \<and>
               (rows_for_key c (shortcuts_sheet w) (trim key) = [] \<longrightarrow>
                  deleteShortcut w key =
                    (Inr (failure (''Shortcut not found: '' @ trim key)), ensureSheets w)) \<and>
               (rows_for_key c (shortcuts_sheet w) (trim key) \<noteq> [] \<longrightarrow>
                  (\<exists>w'. deleteShortcut w key =
                          (Inr \<lparr>ok = True, action = None,
                                message = Some (''Deleted shortcut: '' @ trim key)\<rparr>, w') \<and>
                        data_rows (shortcuts_sheet w') =
                          filter (\<lambda>r. trim (cell r c) \<noteq> trim key) (data_rows (shortcuts_sheet w)) \<and>
                        rows_for_key c (shortcuts_sheet w') (trim key) = []))"
    by blast
qed

lemma demo_key_col: "key_col_of (Some (HEADERS_SHORTCUTS # ds)) = Some 1"
  by (simp add: key_col_of_def colmap_canonical canonical_key_col)

theorem deleteShortcut_outcomes_witness:
  "(\<exists>w'. deleteShortcut demo_dup_world '' foo'' =
           (Inr \<lparr>ok = True, action = None, message = Some ''Deleted shortcut: foo''\<rparr>, w') \<and>
         data_rows (shortcuts_sheet w') = [[[], ''bar'', ''two'']]) \<and>
   deleteShortcut demo_dup_world ''zzz'' = (Inr (failure ''Shortcut not found: zzz''), demo_dup_world)"
proof -
  have e: "ensureSheets demo_dup_world = demo_dup_world"
    using demo_dup_world_fields(2,3) by (rule ensureSheets_canonical)
  have d: "data_rows (shortcuts_sheet demo_dup_world) = demo_dup_rows"
    by (simp add: data_rows_def demo_dup_world_fields)
  have kc: "key_col_of (shortcuts_sheet demo_dup_world) = Some 1"
    unfolding demo_dup_world_fields by (rule demo_key_col)
  have k: "trim '' foo'' = ''foo''" and z: "trim ''zzz'' = ''zzz''" by code_simp+
  have f: "filter (\<lambda>r. trim (cell r 1) = ''foo'') demo_dup_rows \<noteq> []" by code_simp
  have g: "filter (\<lambda>r. trim (cell r 1) \<noteq> ''foo'') demo_dup_rows = [[[], ''bar'', ''two'']]"
    by code_simp
  have n: "filter (\<lambda>r. trim (cell r 1) = ''zzz'') demo_dup_rows = []" by code_simp
  note T = deleteShortcut_outcomes[OF demo_dup_world_fields(1), unfolded e kc]
  from T[of "'' foo''"] have 1: "\<exists>w'. deleteShortcut demo_dup_world '' foo'' =
           (Inr \<lparr>ok = True, action = None, message = Some ''Deleted shortcut: foo''\<rparr>, w') \<and>
         data_rows (shortcuts_sheet w') = [[[], ''bar'', ''two'']]"
    unfolding k rows_for_key_def d using f g by auto
  from T[of "''zzz''"] have 2: "deleteShortcut demo_dup_world ''zzz'' =
      (Inr (failure ''Shortcut not found: zzz''), demo_dup_world)"
    unfolding z rows_for_key_def d using n by auto
  from 1 2 show ?thesis by blast
qed

text \<open>
  Claim C7 as stated fails: on a sheet without a row for \<^verbatim>\<open>zzz\<close> the result of
  \<^verbatim>\<open>deleteShortcut('zzz')\<close> is flagged \<^verbatim>\<open>ok: false\<close> and has no count.
\<close>

theorem deleteShortcut_not_found_is_failure:
  "fst (deleteShortcut demo_dup_world ''zzz'') =
     Inr \<lparr>ok = False, action = None, message = Some ''Shortcut not found: zzz''\<rparr>"
proof -
  have z: "trim ''zzz'' = ''zzz''" by code_simp
  then have z0: "trim ''zzz'' \<noteq> []" by simp
  have n: "filter (\<lambda>r. trim (cell r 1) = ''zzz'') demo_dup_rows = []" by code_simp
  from delete_canonical[OF demo_dup_world_fields(1) z0 demo_dup_world_fields(2,3)]
  show ?thesis unfolding z n by (simp add: failure_def)
qed

subsection \<open>Favorites\<close>

lemma force_add_run:
  assumes "user_email w \<noteq> []" "script_lock_free w" "favorites_sheet w = Some (h # ds)"
    "fav_header_ok (h # ds)" "trim key \<noteq> []"
  shows "updateFavoriteStatus w key ''force_add'' =
           (\<lparr>status = ''added'', snippet = trim key, fav_message = None\<rparr>,
            w\<lparr>favorites_sheet :=
                Some (if 1 < length (favorite_rows (Some (h # ds)) (user_email w) key)
                      then h # filter (\<lambda>r. \<not> (trim (cell r 0) = trim (user_email w) \<and>
                                                trim (cell r 1) = trim key)) ds
                           @ [[user_email w, trim key, now_iso w]]
                      else if favorite_rows (Some (h # ds)) (user_email w) key = []
                           then h # ds @ [[user_email w, trim key, now_iso w]]
                           else h # ds)\<rparr>)"
proof -
  let ?n = "getLastColumn (h # ds)"
  let ?P = "\<lambda>r. trim (cell r 0) = trim (user_email w) \<and> trim (cell r 1) = trim key"
  from assms(4) have col: "fcol_userEmail (getFavoritesColumnMap h) = Some 0"
    "fcol_key (getFavoritesColumnMap h) = Some 1"
    by (simp_all add: fav_header_ok_def first_row_def)
  have rows: "rows_where 2 (\<lambda>r. trim (cell_opt r (Some 0)) = trim (user_email w) \<and>
                               trim (cell_opt r (Some (Suc 0))) = trim key)
                (map (pad_row ?n) ds) = rows_where 2 ?P ds"
    by (simp add: rows_where_map cell_opt_def)
  have fr: "favorite_rows (Some (h # ds)) (user_email w) key = filter ?P ds"
    by (simp add: favorite_rows_def data_rows_def)
  have del: "deleteRows (sort_desc (rows_where 2 ?P ds)) (h # ds) = h # filter (\<lambda>r. \<not> ?P r) ds"
    by (simp add: sort_desc_rows_where deleteRows_data_rows)
  let ?R = "rows_where 2 ?P ds"
  consider (none) "filter ?P ds = []" | (one) "length (filter ?P ds) = 1"
    | (many) "1 < length (filter ?P ds)"
    by (cases "filter ?P ds") (auto simp: less_Suc_eq_le Suc_le_eq)
  then show ?thesis
  proof cases
    case none
    then have R: "?R = []" by (simp add: rows_where_empty_iff)
    show ?thesis
      using assms(1,2,5) none R rows fr
      by (simp add: updateFavoriteStatus_def assms(3) getDataValues_Cons Let_def col
          appendRow_def)
  next
    case one
    then have R: "length ?R = Suc 0" by (simp add: length_rows_where)
    from one have ne: "filter ?P ds \<noteq> []" by auto
    then have Rne: "?R \<noteq> []" by (simp add: rows_where_empty_iff)
    show ?thesis
      using assms(1,2,5) one ne R Rne rows fr
      by (simp add: updateFavoriteStatus_def assms(3) getDataValues_Cons Let_def col
          appendRow_def)
  next
    case many
    then have R: "Suc 0 < length ?R" by (simp add: length_rows_where)
    then have Rne: "?R \<noteq> []" by auto
    show ?thesis
      using assms(1,2,5) many R Rne rows fr del
      by (simp add: updateFavoriteStatus_def assms(3) getDataValues_Cons Let_def col
          appendRow_def)
  qed
qed

lemma fav_header_ok_Cons: "fav_header_ok (h # ds) \<Longrightarrow> fav_header_ok (h # ds')"
  by (simp add: fav_header_ok_def first_row_def)

lemma force_add_once:
  assumes "user_email w \<noteq> []" "script_lock_free w" "favorites_sheet w = Some (h # ds)"
    "fav_header_ok (h # ds)" "trim key \<noteq> []"
  shows "\<exists>ds'. updateFavoriteStatus w key ''force_add'' =
                 (\<lparr>status = ''added'', snippet = trim key, fav_message = None\<rparr>,
                  w\<lparr>favorites_sheet := Some (h # ds')\<rparr>) \<and>
               length (favorite_rows (Some (h # ds')) (user_email w) key) = 1 \<and>
               (length (favorite_rows (Some (h # ds)) (user_email w) key) = 1 \<longrightarrow> ds' = ds)"
proof -
  let ?P = "\<lambda>r. trim (cell r 0) = trim (user_email w) \<and> trim (cell r 1) = trim key"
  let ?new = "[user_email w, trim key, now_iso w]"
  have fr: "favorite_rows (Some (h # xs)) (user_email w) key = filter ?P xs" for xs
    by (simp add: favorite_rows_def data_rows_def)
  have new: "?P ?new" by (simp add: cell_def)
  note run = force_add_run[OF assms]
  consider (none) "filter ?P ds = []" | (one) "length (filter ?P ds) = 1"
    | (many) "1 < length (filter ?P ds)"
    by (cases "filter ?P ds") (auto simp: less_Suc_eq_le Suc_le_eq)
  then show ?thesis
  proof cases
    case none
    have "length (filter ?P (ds @ [?new])) = 1" using none new by simp
    then show ?thesis using run none
      by (intro exI[of _ "ds @ [?new]"]) (simp add: fr)
  next
    case one
    then have "filter ?P ds \<noteq> []" by auto
    with one show ?thesis using run
      by (intro exI[of _ ds]) (simp add: fr)
  next
    case many
    have "length (filter ?P (filter (\<lambda>r. \<not> ?P r) ds @ [?new])) = 1" using new by simp
    then show ?thesis using run many
      by (intro exI[of _ "filter (\<lambda>r. \<not> ?P r) ds @ [?new]"]) (simp add: fr)
  qed
qed

lemma force_add_pair:
  assumes "user_email w \<noteq> []" "script_lock_free w" "favorites_sheet w = Some sh"
    "fav_header_ok sh" "trim key \<noteq> []"
  shows "\<exists>r1 w1 r2. addToFavorites w key = (r1, w1) \<and> addToFavorites w1 key = (r2, w1) \<and>
           status r1 = ''added'' \<and> status r2 = ''added'' \<and>
           length (favorite_rows (favorites_sheet w1) (user_email w) key) = 1"
proof -
  from assms(4) obtain h ds where sh: "sh = h # ds"
    by (cases sh) (auto simp: fav_header_ok_def)
  note a = assms(3,4)[unfolded sh]
  from force_add_once[OF assms(1,2) a assms(5)] obtain ds1 where
    first: "updateFavoriteStatus w key ''force_add'' =
                 (\<lparr>status = ''added'', snippet = trim key, fav_message = None\<rparr>,
                  w\<lparr>favorites_sheet := Some (h # ds1)\<rparr>)"
    and one: "length (favorite_rows (Some (h # ds1)) (user_email w) key) = 1"
    by blast
  let ?w1 = "w\<lparr>favorites_sheet := Some (h # ds1)\<rparr>"
  have u: "user_email ?w1 \<noteq> []" and l: "script_lock_free ?w1"
    and f: "favorites_sheet ?w1 = Some (h # ds1)"
    using assms(1,2) by simp_all
  have hk: "fav_header_ok (h # ds1)" using a(2) by (rule fav_header_ok_Cons)
  from force_add_once[OF u l f hk assms(5)] obtain ds2 where
    second: "updateFavoriteStatus ?w1 key ''force_add'' =
                 (\<lparr>status = ''added'', snippet = trim key, fav_message = None\<rparr>,
                  ?w1\<lparr>favorites_sheet := Some (h # ds2)\<rparr>)"
    and same: "length (favorite_rows (Some (h # ds1)) (user_email ?w1) key) = 1 \<longrightarrow> ds2 = ds1"
    by blast
  from same one have "ds2 = ds1" by simp
  with second have second': "updateFavoriteStatus ?w1 key ''force_add'' =
                 (\<lparr>status = ''added'', snippet = trim key, fav_message = None\<rparr>, ?w1)"
    by simp
  show ?thesis
    using first second' one
    by (intro exI[of _ "\<lparr>status = ''added'', snippet = trim key, fav_message = None\<rparr>"]
              exI[of _ ?w1]) (simp add: addToFavorites_def)
qed

text \<open>The guards of \<^verbatim>\<open>updateFavoriteStatus_\<close>: each reports \<^verbatim>\<open>error\<close> and adds no row.\<close>

lemma update_no_user:
  "user_email w = [] \<Longrightarrow>
   updateFavoriteStatus w key mode =
     (\<lparr>status = ''error'', snippet = key,
       fav_message = Some ''User email not available. Please reload the app.''\<rparr>, w)"
  by (simp add: updateFavoriteStatus_def)

lemma update_no_sheet:
  "user_email w \<noteq> [] \<Longrightarrow> favorites_sheet w = None \<Longrightarrow>
   updateFavoriteStatus w key mode =
     (\<lparr>status = ''error'', snippet = key, fav_message = Some ''Favorites sheet not found.''\<rparr>, w)"
  by (simp add: updateFavoriteStatus_def)

lemma update_lock_timeout:
  "user_email w \<noteq> [] \<Longrightarrow> favorites_sheet w = Some sh \<Longrightarrow> \<not> script_lock_free w \<Longrightarrow>
   updateFavoriteStatus w key mode =
     (\<lparr>status = ''error'', snippet = key,
       fav_message = Some (''Failed to update favorite: '' @ ''Lock timeout'')\<rparr>, w)"
  by (simp add: updateFavoriteStatus_def)

lemma update_blank_key:
  "user_email w \<noteq> [] \<Longrightarrow> favorites_sheet w = Some sh \<Longrightarrow> script_lock_free w \<Longrightarrow>
   trim key = [] \<Longrightarrow>
   updateFavoriteStatus w key mode =
     (\<lparr>status = ''error'', snippet = [], fav_message = Some ''Invalid snippet name.''\<rparr>,
      w\<lparr>favorites_sheet := Some (if sh = [] then [HEADERS_FAVORITES] else sh)\<rparr>)"
  by (simp add: updateFavoriteStatus_def Let_def getDataValues_def appendRow_def)

lemma force_add_guard:
  assumes "user_email w = [] \<or> favorites_sheet w = None \<or> \<not> script_lock_free w \<or> trim key = []"
  shows "status (fst (addToFavorites w key)) = ''error''"
    and "data_rows (favorites_sheet (snd (addToFavorites w key))) = data_rows (favorites_sheet w)"
    and "user_email (snd (addToFavorites w key)) = user_email w"
    and "script_lock_free (snd (addToFavorites w key)) = script_lock_free w"
    and "favorites_sheet (snd (addToFavorites w key)) = None \<longleftrightarrow> favorites_sheet w = None"
proof -
  consider (user) "user_email w = []"
    | (sheet) "user_email w \<noteq> []" "favorites_sheet w = None"
    | (lock) sh where "user_email w \<noteq> []" "favorites_sheet w = Some sh" "\<not> script_lock_free w"
    | (key) sh where "user_email w \<noteq> []" "favorites_sheet w = Some sh" "script_lock_free w"
        "trim key = []"
    using assms by (cases "favorites_sheet w") auto
  then have "status (fst (addToFavorites w key)) = ''error'' \<and>
     data_rows (favorites_sheet (snd (addToFavorites w key))) = data_rows (favorites_sheet w) \<and>
     user_email (snd (addToFavorites w key)) = user_email w \<and>
     script_lock_free (snd (addToFavorites w key)) = script_lock_free w \<and>
     (favorites_sheet (snd (addToFavorites w key)) = None \<longleftrightarrow> favorites_sheet w = None)"
  proof cases
    case user
    then show ?thesis by (simp add: addToFavorites_def update_no_user)
  next
    case sheet
    then show ?thesis by (simp add: addToFavorites_def update_no_sheet)
  next
    case lock
    then show ?thesis by (simp add: addToFavorites_def update_lock_timeout)
  next
    case key
    then show ?thesis by (simp add: addToFavorites_def update_blank_key data_rows_def)
  qed
  then show "status (fst (addToFavorites w key)) = ''error''"
    and "data_rows (favorites_sheet (snd (addToFavorites w key))) = data_rows (favorites_sheet w)"
    and "user_email (snd (addToFavorites w key)) = user_email w"
    and "script_lock_free (snd (addToFavorites w key)) = script_lock_free w"
    and "favorites_sheet (snd (addToFavorites w key)) = None \<longleftrightarrow> favorites_sheet w = None"
    by simp_all
qed

lemma force_add_guard_twice:
  assumes "user_email w = [] \<or> favorites_sheet w = None \<or> \<not> script_lock_free w \<or> trim key = []"
  shows "status (fst (addToFavorites_twice w key)) = ''error''"
    and "data_rows (favorites_sheet (snd (addToFavorites_twice w key))) =
           data_rows (favorites_sheet w)"
proof -
  let ?w1 = "snd (addToFavorites w key)"
  note g = force_add_guard[OF assms]
  have again: "user_email ?w1 = [] \<or> favorites_sheet ?w1 = None \<or> \<not> script_lock_free ?w1 \<or>
               trim key = []"
    using assms g(3,4,5) by simp
  show "status (fst (addToFavorites_twice w key)) = ''error''"
    unfolding addToFavorites_twice_def by (rule force_add_guard(1)[OF again])
  show "data_rows (favorites_sheet (snd (addToFavorites_twice w key))) =
          data_rows (favorites_sheet w)"
    unfolding addToFavorites_twice_def using force_add_guard(2)[OF again] g(2) by simp
qed

text \<open>
  The header condition of the Favorites sheet holds after \<^verbatim>\<open>ensureSheets_\<close> whenever
  no header cell beyond the third repeats \<^verbatim>\<open>UserEmail\<close> or \<^verbatim>\<open>Snippet Name\<close>.
\<close>

lemma fav_header_ok_ensured:
  assumes "\<forall>j<length (first_row sh). 3 \<le> j \<longrightarrow>
             trim (first_row sh ! j) \<noteq> ''UserEmail'' \<and> trim (first_row sh ! j) \<noteq> ''Snippet Name''"
  shows "fav_header_ok (ensureHeaderRow sh HEADERS_FAVORITES)"
proof -
  let ?r = "first_row (ensureHeaderRow sh HEADERS_FAVORITES)"
  note shape = ensureHeaderRow_shape[OF headers_favorites_trimmed, of sh]
  have first3: "trim (cell ?r 0) = ''UserEmail''" "trim (cell ?r 1) = ''Snippet Name''"
    "trim (cell ?r 2) = ''CreatedAt''"
    using shape(3) by (simp_all add: HEADERS_FAVORITES_def)
  have len3: "length HEADERS_FAVORITES = 3" by (simp add: HEADERS_FAVORITES_def)
  have form: "?r = first_row sh \<or> ?r = HEADERS_FAVORITES @ drop 3 (first_row sh)"
    unfolding ensureHeaderRow_def Let_def len3 by (simp add: first_row_def)
  have rest: "trim (?r ! j) \<noteq> ''UserEmail'' \<and> trim (?r ! j) \<noteq> ''Snippet Name''"
    if j: "3 \<le> j" "j < length ?r" for j
  proof -
    from form show ?thesis
    proof
      assume "?r = first_row sh"
      then show ?thesis using assms j by simp
    next
      assume r: "?r = HEADERS_FAVORITES @ drop 3 (first_row sh)"
      with j have "j < length (first_row sh)" by (simp add: HEADERS_FAVORITES_def)
      moreover from r j have "?r ! j = first_row sh ! j"
        by (simp add: HEADERS_FAVORITES_def nth_append)
      ultimately show ?thesis using assms j(1) by simp
    qed
  qed
  have col: "indexHeader ?r name = Some i"
    if name: "name = ''UserEmail'' \<or> name = ''Snippet Name''"
      and i: "i < 3" "HEADERS_FAVORITES ! i = name" for name i
  proof -
    have up: "\<exists>c\<in>set name. is_upper c" using name upper_names(2,9) by auto
    have "name \<in> set HEADERS_FAVORITES" "name \<noteq> []"
      using name by (auto simp: HEADERS_FAVORITES_def)
    from header_present[OF shape(3) this] obtain j where j: "indexHeader ?r name = Some j"
      by auto
    from indexHeader_Some[OF j up] have jl: "j < length ?r" and jt: "trim (?r ! j) = name"
      by simp_all
    have "j < 3" using rest[of j] jl jt name by (cases "3 \<le> j") auto
    then have "trim (cell ?r j) = HEADERS_FAVORITES ! j" using shape(3)
      by (simp add: HEADERS_FAVORITES_def)
    with jl jt have "HEADERS_FAVORITES ! j = name" by (simp add: cell_nth)
    with i \<open>j < 3\<close> name have "j = i"
      by (auto simp: HEADERS_FAVORITES_def less_Suc_eq numeral_3_eq_3)
    with j show ?thesis by simp
  qed
  have "indexHeader ?r ''UserEmail'' = Some 0" "indexHeader ?r ''Snippet Name'' = Some 1"
    by (rule col; simp add: HEADERS_FAVORITES_def)+
  then show ?thesis
    using shape(1) by (simp add: fav_header_ok_def getFavoritesColumnMap_def)
qed

lemma ensureSheets_fav_header_ok:
  assumes "favorites_sheet w = Some sh"
    "\<forall>j<length (first_row sh). 3 \<le> j \<longrightarrow>
       trim (first_row sh ! j) \<noteq> ''UserEmail'' \<and> trim (first_row sh ! j) \<noteq> ''Snippet Name''"
  shows "\<exists>sh'. favorites_sheet (ensureSheets w) = Some sh' \<and> fav_header_ok sh' \<and> tl sh' = tl sh"
  using fav_header_ok_ensured[OF assms(2)] ensureHeaderRow_shape(2)[OF headers_favorites_trimmed]
  by (simp add: ensureSheets_def assms(1))

text \<open>
  Claim C8, as the code has it. A call of \<^verbatim>\<open>updateFavoriteStatus_(key, {mode: 'force_add'})\<close>
  that finds no user email, no Favorites sheet, the script lock taken or a blank key
  reports \<^verbatim>\<open>error\<close> and adds no row, and so does the call after it. Otherwise, when
  the header row of the Favorites sheet makes \<^verbatim>\<open>getFavoritesColumnMap_\<close> find the
  user in the first column and the key in the second (the columns that the appended row
  fills), two calls in succession leave exactly one favorite row for the pair of user
  and key, however many rows the sheet held for the pair before; both calls report
  \<^verbatim>\<open>added\<close> and the second changes nothing.
\<close>

theorem force_add_twice:
  "(user_email w = [] \<or> favorites_sheet w = None \<or> \<not> script_lock_free w \<or> trim key = [] \<longrightarrow>
      status (fst (addToFavorites w key)) = ''error'' \<and>
      status (fst (addToFavorites_twice w key)) = ''error'' \<and>
      data_rows (favorites_sheet (snd (addToFavorites_twice w key))) =
        data_rows (favorites_sheet w)) \<and>
   (user_email w \<noteq> [] \<and> script_lock_free w \<and> trim key \<noteq> [] \<and>
    favorites_sheet w = Some sh \<and> fav_header_ok sh \<longrightarrow>
      (\<exists>r1 w1 r2. addToFavorites w key = (r1, w1) \<and> addToFavorites w1 key = (r2, w1) \<and>
           status r1 = ''added'' \<and> status r2 = ''added'' \<and>
           length (favorite_rows (favorites_sheet w1) (user_email w) key) = 1))"
proof (intro conjI impI)
  assume g: "user_email w = [] \<or> favorites_sheet w = None \<or> \<not> script_lock_free w \<or> trim key = []"
  show "status (fst (addToFavorites w key)) = ''error''" by (rule force_add_guard(1)[OF g])
  show "status (fst (addToFavorites_twice w key)) = ''error''"
    by (rule force_add_guard_twice(1)[OF g])
  show "data_rows (favorites_sheet (snd (addToFavorites_twice w key))) =
          data_rows (favorites_sheet w)"
    by (rule force_add_guard_twice(2)[OF g])
next
  assume "user_email w \<noteq> [] \<and> script_lock_free w \<and> trim key \<noteq> [] \<and>
          favorites_sheet w = Some sh \<and> fav_header_ok sh"
  then show "\<exists>r1 w1 r2. addToFavorites w key = (r1, w1) \<and> addToFavorites w1 key = (r2, w1) \<and>
           status r1 = ''added'' \<and> status r2 = ''added'' \<and>
           length (favorite_rows (favorites_sheet w1) (user_email w) key) = 1"
    using force_add_pair[of w sh key] by simp
qed

lemma demo_fav_header_ok: "fav_header_ok (HEADERS_FAVORITES # ds)"
  by (simp add: fav_header_ok_def first_row_def getFavoritesColumnMap_def index_favorite_headers)

theorem force_add_twice_witness:
  "length (favorite_rows (favorites_sheet demo_fav_world) ''ann@example.org'' ''foo'') = 2 \<and>
   (\<exists>r1 w1 r2. addToFavorites demo_fav_world ''foo'' = (r1, w1) \<and>
       addToFavorites w1 ''foo'' = (r2, w1) \<and> status r1 = ''added'' \<and> status r2 = ''added'' \<and>
       length (favorite_rows (favorites_sheet w1) ''ann@example.org'' ''foo'') = 1) \<and>
   status (fst (addToFavorites demo_world ''  '')) = ''error'' \<and>
   status (fst (addToFavorites_twice demo_world ''  '')) = ''error'' \<and>
   data_rows (favorites_sheet (snd (addToFavorites_twice demo_world ''  ''))) = []"
proof -
  have u: "user_email demo_fav_world = ''ann@example.org''" and l: "script_lock_free demo_fav_world"
    by (simp_all add: demo_fav_world_def demo_dup_world_def demo_world_def)
  have u0: "user_email demo_fav_world \<noteq> []" unfolding u by simp
  have k: "trim ''foo'' \<noteq> []" by code_simp
  have two: "length (filter (\<lambda>r. trim (cell r 0) = trim ''ann@example.org'' \<and>
                                  trim (cell r 1) = trim ''foo'') demo_fav_rows) = 2"
    by code_simp
  then have before: "length (favorite_rows (favorites_sheet demo_fav_world) ''ann@example.org'' ''foo'') = 2"
    by (simp add: favorite_rows_def data_rows_def demo_fav_world_fields)
  have b: "trim ''  '' = []" by code_simp
  have d: "data_rows (favorites_sheet demo_world) = []"
    by (simp add: data_rows_def demo_world_def)
  from force_add_twice[of demo_fav_world "''foo''" "HEADERS_FAVORITES # demo_fav_rows"]
    u0 l k demo_fav_world_fields(3) demo_fav_header_ok[of demo_fav_rows]
  have ok: "\<exists>r1 w1 r2. addToFavorites demo_fav_world ''foo'' = (r1, w1) \<and>
       addToFavorites w1 ''foo'' = (r2, w1) \<and> status r1 = ''added'' \<and> status r2 = ''added'' \<and>
       length (favorite_rows (favorites_sheet w1) ''ann@example.org'' ''foo'') = 1"
    unfolding u by blast
  from force_add_twice[of demo_world "''  ''" "[]"] b d
  have err: "status (fst (addToFavorites demo_world ''  '')) = ''error'' \<and>
     status (fst (addToFavorites_twice demo_world ''  '')) = ''error'' \<and>
     data_rows (favorites_sheet (snd (addToFavorites_twice demo_world ''  ''))) = []"
    by simp
  from before ok err show ?thesis by blast
qed

text \<open>
  Claim C8 as stated fails. It promises one favorite row and a second status
  \<^verbatim>\<open>added\<close> or \<^verbatim>\<open>unchanged\<close> for every user and key. With a fourth header cell that
  repeats \<^verbatim>\<open>Snippet Name\<close> the key is looked up in the fourth column and written to the
  second, so the second call appends the same row again. With a blank key, with the
  script lock taken or without a user email, the second call reports \<^verbatim>\<open>error\<close> and
  the sheet holds no row for the pair.
\<close>

theorem force_add_duplicate_or_error:
  "status (fst (addToFavorites_twice demo_fav_extra_col_world ''foo'')) = ''added'' \<and>
   data_rows (favorites_sheet (snd (addToFavorites_twice demo_fav_extra_col_world ''foo''))) =
     [[''ann@example.org'', ''foo'', ''t0''], [''ann@example.org'', ''foo'', ''t0'']] \<and>
   length (favorite_rows (favorites_sheet (snd (addToFavorites_twice demo_fav_extra_col_world ''foo'')))
             ''ann@example.org'' ''foo'') = 2 \<and>
   status (fst (addToFavorites_twice demo_world ''  '')) = ''error'' \<and>
   data_rows (favorites_sheet (snd (addToFavorites_twice demo_world ''  ''))) = [] \<and>
   status (fst (addToFavorites_twice demo_busy_world ''foo'')) = ''error'' \<and>
   data_rows (favorites_sheet (snd (addToFavorites_twice demo_busy_world ''foo''))) = [] \<and>
   status (fst (addToFavorites_twice demo_anonymous_world ''foo'')) = ''error'' \<and>
   data_rows (favorites_sheet (snd (addToFavorites_twice demo_anonymous_world ''foo''))) = []"
proof (intro conjI)
  show "status (fst (addToFavorites_twice demo_fav_extra_col_world ''foo'')) = ''added''"
    by code_simp
  show "data_rows (favorites_sheet (snd (addToFavorites_twice demo_fav_extra_col_world ''foo''))) =
     [[''ann@example.org'', ''foo'', ''t0''], [''ann@example.org'', ''foo'', ''t0'']]"
    by code_simp
  show "length (favorite_rows (favorites_sheet (snd (addToFavorites_twice demo_fav_extra_col_world ''foo'')))
             ''ann@example.org'' ''foo'') = 2"
    by code_simp
  show "status (fst (addToFavorites_twice demo_world ''  '')) = ''error''" by code_simp
  show "data_rows (favorites_sheet (snd (addToFavorites_twice demo_world ''  ''))) = []"
    by code_simp
  show "status (fst (addToFavorites_twice demo_busy_world ''foo'')) = ''error''" by code_simp
  show "data_rows (favorites_sheet (snd (addToFavorites_twice demo_busy_world ''foo''))) = []"
    by code_simp
  show "status (fst (addToFavorites_twice demo_anonymous_world ''foo'')) = ''error''"
    by code_simp
  show "data_rows (favorites_sheet (snd (addToFavorites_twice demo_anonymous_world ''foo''))) = []"
    by code_simp
qed

subsection \<open>Snapshot creation\<close>

lemma chunkString_total: "0 < n \<Longrightarrow> \<exists>cs. chunkString s n = Some cs"
  using chunk_loop_total[of n s 0 "[]"] by (auto simp: chunkString_def)

lemma begin_run:
  assumes "script_lock_free w" "getShortcutsFromSheet w = Inr rows"
    "gzip_b64 plat (json_of_rows plat rows) = Some enc"
  shows "\<exists>chunks. chunkString enc CHUNK_SIZE = Some chunks \<and>
           beginShortcutsSnapshot plat w =
             Some (Inr \<lparr>sm_snapshotToken = next_uuid w, sm_total = length rows,
                        sm_builtAt = now_iso w, sm_pageSize = 200\<rparr>,
                   if cache_put_ok w
                   then w\<lparr>cache := cache w ++
                          payload_chunks (''SNAP_'' @ next_uuid w) 0 chunks
                            (Map.empty(meta_key (''SNAP_'' @ next_uuid w) \<mapsto>
                               json_of_meta plat \<lparr>chunkCount = length chunks,
                                 encoding = ''gz-b64'', updatedAt = now_iso w\<rparr>))\<rparr>
                   else w)"
proof -
  have "0 < CHUNK_SIZE" by (simp add: CHUNK_SIZE_def)
  from chunkString_total[OF this, of enc] obtain chunks where
    c: "chunkString enc CHUNK_SIZE = Some chunks" by blast
  have "beginShortcutsSnapshot plat w =
             Some (Inr \<lparr>sm_snapshotToken = next_uuid w, sm_total = length rows,
                        sm_builtAt = now_iso w, sm_pageSize = 200\<rparr>,
                   if cache_put_ok w
                   then w\<lparr>cache := cache w ++
                          payload_chunks (''SNAP_'' @ next_uuid w) 0 chunks
                            (Map.empty(meta_key (''SNAP_'' @ next_uuid w) \<mapsto>
                               json_of_meta plat \<lparr>chunkCount = length chunks,
                                 encoding = ''gz-b64'', updatedAt = now_iso w\<rparr>))\<rparr>
                   else w)"
    using assms c
    by (simp add: beginShortcutsSnapshot_def writeSnapshotCache_def writeCacheByKey_def
        encodeGzB64_def Let_def CFG_INITIAL_PAGE_SIZE_def)
  with c show ?thesis by blast
qed

text \<open>
  Claim C5, as the code has it. \<^verbatim>\<open>beginShortcutsSnapshot\<close> always returns; it raises
  when the script lock cannot be acquired, when the sheet cannot be read or when
  compression fails. When these succeed it returns the metadata, whether or not
  \<^verbatim>\<open>cache.putAll\<close> succeeds: a failed write is caught in \<^verbatim>\<open>writeCacheByKey_\<close>,
  whose \<^verbatim>\<open>false\<close> is dropped by \<^verbatim>\<open>writeSnapshotCache_\<close>, and the cache is left as
  it was. If the cache holds no meta record for the token, the next
  \<^verbatim>\<open>fetchSnapshotPage_\<close> for it returns the expired signal.
\<close>

theorem beginShortcutsSnapshot_outcomes:
  "(\<not> script_lock_free w \<longrightarrow> beginShortcutsSnapshot plat w = Some (Inl ServerBusy, w)) \<and>
   (script_lock_free w \<and> getShortcutsFromSheet w = Inl e \<longrightarrow>
      beginShortcutsSnapshot plat w = Some (Inl e, w)) \<and>
   (script_lock_free w \<and> getShortcutsFromSheet w = Inr rows \<and>
    gzip_b64 plat (json_of_rows plat rows) = None \<longrightarrow>
      beginShortcutsSnapshot plat w = Some (Inl CompressionFailed, w)) \<and>
   (script_lock_free w \<and> getShortcutsFromSheet w = Inr rows \<and>
    gzip_b64 plat (json_of_rows plat rows) = Some enc \<longrightarrow>
      (\<exists>w'. beginShortcutsSnapshot plat w =
               Some (Inr \<lparr>sm_snapshotToken = next_uuid w, sm_total = length rows,
                          sm_builtAt = now_iso w, sm_pageSize = 200\<rparr>, w') \<and>
            (\<not> cache_put_ok w \<longrightarrow>
               w' = w \<and>
               (cache w (meta_key (''SNAP_'' @ next_uuid w)) = None \<longrightarrow>
                  fetchSnapshotPage plat w' (next_uuid w) offs limit = Inr SNAPSHOT_EXPIRED))))"
proof (intro conjI impI)
  assume "\<not> script_lock_free w"
  then show "beginShortcutsSnapshot plat w = Some (Inl ServerBusy, w)"
    by (simp add: beginShortcutsSnapshot_def)
next
  assume "script_lock_free w \<and> getShortcutsFromSheet w = Inl e"
  then show "beginShortcutsSnapshot plat w = Some (Inl e, w)"
    by (simp add: beginShortcutsSnapshot_def)
next
  assume "script_lock_free w \<and> getShortcutsFromSheet w = Inr rows \<and>
    gzip_b64 plat (json_of_rows plat rows) = None"
  then show "beginShortcutsSnapshot plat w = Some (Inl CompressionFailed, w)"
    by (simp add: beginShortcutsSnapshot_def writeSnapshotCache_def writeCacheByKey_def
        encodeGzB64_def Let_def)
next
  assume a: "script_lock_free w \<and> getShortcutsFromSheet w = Inr rows \<and>
    gzip_b64 plat (json_of_rows plat rows) = Some enc"
  then have l: "script_lock_free w" and r: "getShortcutsFromSheet w = Inr rows"
    and g: "gzip_b64 plat (json_of_rows plat rows) = Some enc" by simp_all
  from begin_run[OF l r g] obtain w' where
    run: "beginShortcutsSnapshot plat w =
               Some (Inr \<lparr>sm_snapshotToken = next_uuid w, sm_total = length rows,
                          sm_builtAt = now_iso w, sm_pageSize = 200\<rparr>, w')"
    and same: "\<not> cache_put_ok w \<longrightarrow> w' = w"
    by auto
  have fail: "\<not> cache_put_ok w \<longrightarrow>
               w' = w \<and>
               (cache w (meta_key (''SNAP_'' @ next_uuid w)) = None \<longrightarrow>
                  fetchSnapshotPage plat w' (next_uuid w) offs limit = Inr SNAPSHOT_EXPIRED)"
  proof (intro impI conjI)
    assume n: "\<not> cache_put_ok w"
    with same show "w' = w" by simp
    assume "cache w (meta_key (''SNAP_'' @ next_uuid w)) = None"
    then have "readCacheByKey plat w (''SNAP_'' @ next_uuid w) = Inr None"
      by (rule readCacheByKey_meta_absent)
    then show "fetchSnapshotPage plat w' (next_uuid w) offs limit = Inr SNAPSHOT_EXPIRED"
      using same n by (simp add: fetchSnapshotPage_def readSnapshotCache_def)
  qed
  show "\<exists>w'. beginShortcutsSnapshot plat w =
               Some (Inr \<lparr>sm_snapshotToken = next_uuid w, sm_total = length rows,
                          sm_builtAt = now_iso w, sm_pageSize = 200\<rparr>, w') \<and>
            (\<not> cache_put_ok w \<longrightarrow>
               w' = w \<and>
               (cache w (meta_key (''SNAP_'' @ next_uuid w)) = None \<longrightarrow>
                  fetchSnapshotPage plat w' (next_uuid w) offs limit = Inr SNAPSHOT_EXPIRED))"
  proof (intro exI conjI)
    show "beginShortcutsSnapshot plat w =
               Some (Inr \<lparr>sm_snapshotToken = next_uuid w, sm_total = length rows,
                          sm_builtAt = now_iso w, sm_pageSize = 200\<rparr>, w')" by (rule run)
    show "\<not> cache_put_ok w \<longrightarrow>
               w' = w \<and>
               (cache w (meta_key (''SNAP_'' @ next_uuid w)) = None \<longrightarrow>
                  fetchSnapshotPage plat w' (next_uuid w) offs limit = Inr SNAPSHOT_EXPIRED)"
      by (rule fail)
  qed
qed

lemma shortcuts_from_pad:
  "shortcuts_from i col (map (pad_row n) rs) = shortcuts_from i col rs"
  by (induction rs arbitrary: i) (simp_all add: Let_def)

lemma read_canonical:
  assumes "shortcuts_sheet w = Some (HEADERS_SHORTCUTS # r # rs)"
  shows "getShortcutsFromSheet w = Inr (shortcuts_from 1 canonical_snapshot_cols (r # rs))"
proof -
  let ?n = "getLastColumn (HEADERS_SHORTCUTS # r # rs)"
  have col: "\<lparr>scol_id = indexHeader HEADERS_SHORTCUTS ''ID'',
              scol_key = indexHeader HEADERS_SHORTCUTS ''Snippet Name'',
              scol_expansion = indexHeader HEADERS_SHORTCUTS ''Content'',
              scol_application = indexHeader HEADERS_SHORTCUTS ''Application'',
              scol_description = indexHeader HEADERS_SHORTCUTS ''Description'',
              scol_language = indexHeader HEADERS_SHORTCUTS ''Language'',
              scol_tags = indexHeader HEADERS_SHORTCUTS ''Tags'',
              scol_updatedAt = indexHeader HEADERS_SHORTCUTS ''UpdatedAt''\<rparr> = canonical_snapshot_cols"
    by (simp add: index_shortcut_headers canonical_cols_def canonical_snapshot_cols_def)
  have "getShortcutsFromSheet w =
        Inr (shortcuts_from 1 canonical_snapshot_cols (map (pad_row ?n) (r # rs)))"
    by (simp add: getShortcutsFromSheet_def getSheet_shortcuts assms getDataValues_Cons Let_def col
        del: shortcuts_from.simps)
  then show ?thesis by (simp only: shortcuts_from_pad)
qed

lemma demo_read_sheet: "getShortcutsFromSheet demo_world = Inr demo_rows"
proof -
  have s: "shortcuts_sheet demo_world =
           Some (HEADERS_SHORTCUTS # [[], ''a'', ''text''] # [[[], ''b'', ''text''], [[], ''c'', ''text'']])"
    by (simp add: demo_world_def)
  have r: "shortcuts_from 1 canonical_snapshot_cols
             ([[], ''a'', ''text''] # [[[], ''b'', ''text''], [[], ''c'', ''text'']]) = demo_rows"
    by code_simp
  from read_canonical[OF s] show ?thesis unfolding r .
qed

lemma demo_cache_down_fields:
  "script_lock_free demo_cache_down_world" "\<not> cache_put_ok demo_cache_down_world"
  "next_uuid demo_cache_down_world = ''tok''" "now_iso demo_cache_down_world = ''t0''"
  "cache demo_cache_down_world k = None"
  "shortcuts_sheet demo_cache_down_world = shortcuts_sheet demo_world"
  by (simp_all add: demo_cache_down_world_def demo_world_def)

lemma demo_cache_down_read: "getShortcutsFromSheet demo_cache_down_world = Inr demo_rows"
  using demo_read_sheet
  by (simp add: getShortcutsFromSheet_def getSheet_shortcuts demo_cache_down_fields)

lemma demo_gzip: "gzip_b64 demo_platform (json_of_rows demo_platform demo_rows) = Some ''gz:[a,b,c]''"
  by (simp add: demo_platform_def)

theorem beginShortcutsSnapshot_outcomes_witness:
  "beginShortcutsSnapshot demo_platform demo_cache_down_world =
     Some (Inr \<lparr>sm_snapshotToken = ''tok'', sm_total = 3, sm_builtAt = ''t0'', sm_pageSize = 200\<rparr>,
           demo_cache_down_world) \<and>
   fetchSnapshotPage demo_platform demo_cache_down_world ''tok'' (JNum 0) (JNum 200) =
     Inr SNAPSHOT_EXPIRED"
proof -
  have n: "length demo_rows = 3" by (simp add: demo_rows_def)
  from beginShortcutsSnapshot_outcomes[of demo_cache_down_world demo_platform _ demo_rows
      "''gz:[a,b,c]''" "JNum 0" "JNum 200"]
  have "\<exists>w'. beginShortcutsSnapshot demo_platform demo_cache_down_world =
               Some (Inr \<lparr>sm_snapshotToken = ''tok'', sm_total = 3,
                          sm_builtAt = ''t0'', sm_pageSize = 200\<rparr>, w') \<and>
               w' = demo_cache_down_world \<and>
               fetchSnapshotPage demo_platform w' ''tok'' (JNum 0) (JNum 200) = Inr SNAPSHOT_EXPIRED"
    using demo_cache_down_read demo_gzip
    by (simp add: demo_cache_down_fields n)
  then show ?thesis by auto
qed

text \<open>
  Claim C5 as stated fails: with a cache that rejects the write,
  \<^verbatim>\<open>beginShortcutsSnapshot\<close> returns the token and the total of a snapshot of which
  nothing was stored.
\<close>

theorem beginShortcutsSnapshot_returns_despite_write_failure:
  "\<not> cache_put_ok demo_cache_down_world \<and>
   beginShortcutsSnapshot demo_platform demo_cache_down_world =
     Some (Inr \<lparr>sm_snapshotToken = ''tok'', sm_total = 3, sm_builtAt = ''t0'', sm_pageSize = 200\<rparr>,
           demo_cache_down_world) \<and>
   cache demo_cache_down_world (meta_key ''SNAP_tok'') = None"
proof -
  have n: "length demo_rows = 3" by (simp add: demo_rows_def)
  from begin_run[OF demo_cache_down_fields(1) demo_cache_down_read demo_gzip]
  have "beginShortcutsSnapshot demo_platform demo_cache_down_world =
     Some (Inr \<lparr>sm_snapshotToken = ''tok'', sm_total = 3, sm_builtAt = ''t0'', sm_pageSize = 200\<rparr>,
           demo_cache_down_world)"
    by (auto simp: demo_cache_down_fields n)
  then show ?thesis by (simp add: demo_cache_down_fields)
qed

subsection \<open>The scenario of the specification\<close>

text \<open>
  A table with the keys \<^verbatim>\<open>a\<close>, \<^verbatim>\<open>b\<close>, \<^verbatim>\<open>c\<close>: creating the snapshot stores one
  chunk and the meta record and reports three rows; the page at offset 0 with limit 2
  holds \<^verbatim>\<open>a\<close> and \<^verbatim>\<open>b\<close> and announces more, the page at offset 2 holds \<^verbatim>\<open>c\<close>
  and ends the walk.
\<close>

lemma demo_chunks: "chunkString ''gz:[a,b,c]'' CHUNK_SIZE = Some [''gz:[a,b,c]'']"
  by (simp add: chunkString_def chunk_loop.simps substring_def CHUNK_SIZE_def)

lemma demo_begin:
  "beginShortcutsSnapshot demo_platform demo_world =
     Some (Inr \<lparr>sm_snapshotToken = ''tok'', sm_total = 3, sm_builtAt = ''t0'', sm_pageSize = 200\<rparr>,
           demo_snapshot_world)"
proof -
  have l: "script_lock_free demo_world" and p: "cache_put_ok demo_world"
    and u: "next_uuid demo_world = ''tok''" and t: "now_iso demo_world = ''t0''"
    and c: "cache demo_world = Map.empty"
    by (simp_all add: demo_world_def)
  have n: "length demo_rows = 3" by (simp add: demo_rows_def)
  have m: "json_of_meta demo_platform
             \<lparr>chunkCount = length [''gz:[a,b,c]''], encoding = ''gz-b64'', updatedAt = ''t0''\<rparr> = ''1''"
    by (simp add: demo_platform_def digit_char_def)
  have pl: "Map.empty ++ payload_chunks (''SNAP_'' @ ''tok'') 0 [''gz:[a,b,c]'']
              (Map.empty(meta_key (''SNAP_'' @ ''tok'') \<mapsto> ''1'')) =
            [''SNAP_tok_META'' \<mapsto> ''1'', ''SNAP_tok_1'' \<mapsto> ''gz:[a,b,c]'']"
    by (simp add: meta_key_def chunk_key_def digit_char_def)
  from begin_run[OF l demo_read_sheet demo_gzip] obtain chunks where
    ch: "chunkString ''gz:[a,b,c]'' CHUNK_SIZE = Some chunks"
    and run: "beginShortcutsSnapshot demo_platform demo_world =
             Some (Inr \<lparr>sm_snapshotToken = next_uuid demo_world, sm_total = length demo_rows,
                        sm_builtAt = now_iso demo_world, sm_pageSize = 200\<rparr>,
                   if cache_put_ok demo_world
                   then demo_world\<lparr>cache := cache demo_world ++
                          payload_chunks (''SNAP_'' @ next_uuid demo_world) 0 chunks
                            (Map.empty(meta_key (''SNAP_'' @ next_uuid demo_world) \<mapsto>
                               json_of_meta demo_platform \<lparr>chunkCount = length chunks,
                                 encoding = ''gz-b64'', updatedAt = now_iso demo_world\<rparr>))\<rparr>
                   else demo_world)"
    by blast
  from ch have chunks: "chunks = [''gz:[a,b,c]'']" by (simp add: demo_chunks)
  show ?thesis
    using run unfolding chunks u t c n m pl demo_snapshot_world_def
    by (simp only: p if_True)
qed

lemma demo_pages:
  "fetchSnapshotPage demo_platform demo_snapshot_world ''tok'' (JNum 0) (JNum 2) =
     Inr (Page \<lparr>items = [demo_row ''ROW-2'' ''a'', demo_row ''ROW-3'' ''b''], offset = 2,
                 total = 3, hasMore = True, snapshotToken = ''tok''\<rparr>)"
  "fetchSnapshotPage demo_platform demo_snapshot_world ''tok'' (JNum 2) (JNum 2) =
     Inr (Page \<lparr>items = [demo_row ''ROW-4'' ''c''], offset = 3,
                 total = 3, hasMore = False, snapshotToken = ''tok''\<rparr>)"
  using fetch_page_value[OF demo_snapshot_read, of 0 2] fetch_page_value[OF demo_snapshot_read, of 2 2]
  by (simp_all add: demo_rows_def)

subsection \<open>Reading back what was written\<close>

lemma digit_char_inj: "a < 10 \<Longrightarrow> b < 10 \<Longrightarrow> digit_char a = digit_char b \<Longrightarrow> a = b"
proof -
  have d: "distinct ''0123456789''" by simp
  assume "a < 10" "b < 10" "digit_char a = digit_char b"
  then show "a = b" using d by (simp add: digit_char_def nth_eq_iff_index_eq)
qed

lemma string_of_nat_small: "n < 10 \<Longrightarrow> string_of_nat n = [digit_char n]"
  by (subst string_of_nat.simps) simp

lemma string_of_nat_large:
  "10 \<le> n \<Longrightarrow> string_of_nat n = string_of_nat (n div 10) @ [digit_char (n mod 10)]"
  by (subst string_of_nat.simps) simp

lemma string_of_nat_nonempty: "string_of_nat n \<noteq> []"
  by (cases "n < 10") (simp_all add: string_of_nat_small string_of_nat_large)

lemma string_of_nat_inj: "string_of_nat m = string_of_nat n \<Longrightarrow> m = n"
proof (induction m arbitrary: n rule: less_induct)
  case (less m)
  show ?case
  proof (cases "m < 10")
    case True
    show ?thesis
    proof (cases "n < 10")
      case n: True
      with True less.prems show ?thesis by (simp add: string_of_nat_small digit_char_inj)
    next
      case False
      then have "string_of_nat n = string_of_nat (n div 10) @ [digit_char (n mod 10)]"
        by (simp add: string_of_nat_large)
      with True less.prems string_of_nat_nonempty[of "n div 10"] show ?thesis
        by (simp add: string_of_nat_small)
    qed
  next
    case False
    then have m: "string_of_nat m = string_of_nat (m div 10) @ [digit_char (m mod 10)]"
      by (simp add: string_of_nat_large)
    show ?thesis
    proof (cases "n < 10")
      case True
      with m less.prems string_of_nat_nonempty[of "m div 10"] show ?thesis
        by (simp add: string_of_nat_small)
    next
      case n: False
      then have "string_of_nat n = string_of_nat (n div 10) @ [digit_char (n mod 10)]"
        by (simp add: string_of_nat_large)
      with m less.prems have q: "string_of_nat (m div 10) = string_of_nat (n div 10)"
        and r: "digit_char (m mod 10) = digit_char (n mod 10)" by simp_all
      have "m div 10 < m" using False by simp
      from less.IH[OF this q] have "m div 10 = n div 10" .
      moreover from r have "m mod 10 = n mod 10" by (intro digit_char_inj) simp_all
      ultimately show ?thesis by (metis div_mult_mod_eq)
    qed
  qed
qed

lemma string_of_nat_digits: "set (string_of_nat n) \<subseteq> set ''0123456789''"
proof (induction n rule: less_induct)
  case (less n)
  have d: "k < 10 \<Longrightarrow> digit_char k \<in> set ''0123456789''" for k
    unfolding digit_char_def by (rule nth_mem) simp
  show ?case
  proof (cases "n < 10")
    case True
    then show ?thesis using d[of n] by (simp only: string_of_nat_small) simp
  next
    case False
    then have "n div 10 < n" by simp
    from less[OF this] d[of "n mod 10"] False show ?thesis
      by (simp only: string_of_nat_large[of n]) auto
  qed
qed

lemma chunk_key_inj: "chunk_key prefix i = chunk_key prefix j \<Longrightarrow> i = j"
  by (simp add: chunk_key_def string_of_nat_inj)

lemma meta_key_not_chunk_key: "meta_key prefix \<noteq> chunk_key prefix i"
proof
  assume "meta_key prefix = chunk_key prefix i"
  then have "string_of_nat i = ''META''" by (simp add: meta_key_def chunk_key_def)
  then have "CHR ''M'' \<in> set (string_of_nat i)" by simp
  with string_of_nat_digits[of i] show False by auto
qed

lemma payload_chunks_other:
  "(\<forall>j<length cs. k \<noteq> chunk_key prefix (i + j + 1)) \<Longrightarrow> payload_chunks prefix i cs p k = p k"
proof (induction cs arbitrary: i p)
  case Nil
  then show ?case by simp
next
  case (Cons c cs)
  have "\<forall>j<length cs. k \<noteq> chunk_key prefix (Suc i + j + 1)"
    using Cons.prems by (auto dest: spec[of _ "Suc _"])
  from Cons.IH[OF this] Cons.prems show ?case by auto
qed

lemma payload_chunks_nth:
  "j < length cs \<Longrightarrow> payload_chunks prefix i cs p (chunk_key prefix (i + j + 1)) = Some (cs ! j)"
proof (induction cs arbitrary: i p j)
  case Nil
  then show ?case by simp
next
  case (Cons c cs)
  show ?case
  proof (cases j)
    case 0
    have "\<forall>j'<length cs. chunk_key prefix (i + 1) \<noteq> chunk_key prefix (Suc i + j' + 1)"
      by (auto dest: chunk_key_inj)
    from payload_chunks_other[OF this] 0 show ?thesis by simp
  next
    case (Suc j')
    with Cons.prems have "j' < length cs" by simp
    from Cons.IH[OF this, of "Suc i"] Suc show ?thesis by simp
  qed
qed

lemma chunkString_nonempty:
  assumes "chunkString s n = Some cs" "0 < n"
  shows "concat cs = s \<and> (\<forall>c\<in>set cs. c \<noteq> []) \<and> (s \<noteq> [] \<longrightarrow> cs \<noteq> [])"
proof -
  from chunk_loop_total[OF assms(2), of s 0 "[]"] assms(1)
  have nth: "\<And>j. j < length cs \<Longrightarrow> cs ! j = take n (drop (j * n) s)"
    and inside: "\<And>j. j < length cs \<Longrightarrow> j * n < length s"
    and len: "length s \<le> length cs * n"
    by (auto simp: chunkString_def)
  have "cs = map (\<lambda>j. take n (drop (j * n) s)) [0..<length cs]"
    by (rule nth_equalityI) (simp_all add: nth)
  then have "concat cs = take (length cs * n) s"
    using concat_chunks_take[of n s "length cs"] by simp
  then have cat: "concat cs = s" using len by simp
  have ne: "\<forall>c\<in>set cs. c \<noteq> []"
  proof
    fix c assume "c \<in> set cs"
    then obtain j where j: "j < length cs" "c = cs ! j" by (auto simp: in_set_conv_nth)
    then show "c \<noteq> []" using nth[of j] inside[of j] assms(2) by auto
  qed
  from cat ne show ?thesis by auto
qed

text \<open>
  A snapshot that was written can be read: when the platform functions are inverse to
  each other on the data at hand, the compressed text and the meta text are not empty
  and \<^verbatim>\<open>putAll\<close> succeeds, \<^verbatim>\<open>readCacheByKey_\<close> returns the rows that
  \<^verbatim>\<open>writeCacheByKey_\<close> stored under the same prefix.
\<close>

lemma write_then_read:
  assumes enc: "gzip_b64 plat (json_of_rows plat rows) = Some e" "e \<noteq> []"
    and dec: "ungzip_b64 plat e = Some (json_of_rows plat rows)"
    and rows: "rows_of_json plat (json_of_rows plat rows) = Some rows"
    and meta: "\<And>m. meta_of_json plat (json_of_meta plat m) = Some m"
      "\<And>m. json_of_meta plat m \<noteq> []"
    and put: "cache_put_ok w"
  shows "\<exists>w'. writeCacheByKey plat w prefix rows ttl = Some (Inr (True, w')) \<and>
              readCacheByKey plat w' prefix = Inr (Some rows)"
proof -
  have pos: "0 < CHUNK_SIZE" by (simp add: CHUNK_SIZE_def)
  from chunkString_total[OF pos, of e] obtain cs where cs: "chunkString e CHUNK_SIZE = Some cs"
    by blast
  from chunkString_nonempty[OF cs pos] enc(2)
  have cat: "concat cs = e" and ne: "\<forall>c\<in>set cs. c \<noteq> []" and some: "cs \<noteq> []" by simp_all
  let ?m = "\<lparr>chunkCount = length cs, encoding = ''gz-b64'', updatedAt = now_iso w\<rparr>"
  let ?payload = "payload_chunks prefix 0 cs (Map.empty(meta_key prefix \<mapsto> json_of_meta plat ?m))"
  let ?w' = "w\<lparr>cache := cache w ++ ?payload\<rparr>"
  have wr: "writeCacheByKey plat w prefix rows ttl = Some (Inr (True, ?w'))"
    using enc(1) cs put by (simp add: writeCacheByKey_def encodeGzB64_def Let_def)
  let ?c = "cache w ++ ?payload"
  have "\<forall>j<length cs. meta_key prefix \<noteq> chunk_key prefix (0 + j + 1)"
    by (simp add: meta_key_not_chunk_key)
  from payload_chunks_other[OF this]
  have pm: "?payload (meta_key prefix) = Some (json_of_meta plat ?m)" by simp
  have cm: "?c (meta_key prefix) = Some (json_of_meta plat ?m)"
    unfolding map_add_def pm by simp
  have ck: "\<forall>j<length cs. ?c (chunk_key prefix (Suc j)) = Some (cs ! j)"
  proof (intro allI impI)
    fix j assume "j < length cs"
    from payload_chunks_nth[OF this, of prefix 0]
    have "?payload (chunk_key prefix (Suc j)) = Some (cs ! j)" by simp
    then show "?c (chunk_key prefix (Suc j)) = Some (cs ! j)"
      unfolding map_add_def by simp
  qed
  have rd: "readChunksByKey ?c prefix (length cs) = Some e"
    using readChunksByKey_ok[OF ck ne] unfolding cat .
  have rc: "readCacheByKey plat (w\<lparr>cache := ?c\<rparr>) prefix = Inr (Some rows)"
  proof -
    have sel: "cache (w\<lparr>cache := ?c\<rparr>) = ?c" by simp
    show ?thesis
      unfolding readCacheByKey_def sel cm
      using some enc(2) by (simp add: meta rd decodeGzB64_def dec rows)
  qed
  from wr rc show ?thesis by blast
qed

end
